theory Spec2Isabelle
  imports Main "HOL-Library.AList"
begin

section \<open>JavaScript values and the runtime's failures\<close>

text \<open>
  The modules of \<^verbatim>\<open>span_graph_module.ts\<close> receive their records as parsed JSON
  (\<^verbatim>\<open>Input|Preds\<close>, an index signature over \<^verbatim>\<open>any\<close>), so a field value is
  any JSON value, whatever the spec declares for it. An object is the list of its own
  properties in insertion order, with distinct keys. Field names are taken to be ordinary
  names: a name that the object would inherit from \<^verbatim>\<open>Object.prototype\<close> (such as
  \<^verbatim>\<open>constructor\<close> or \<^verbatim>\<open>__proto__\<close>) and integer-like names, which
  \<^verbatim>\<open>Object.keys\<close> lists first, are outside the model.
\<close>

datatype jsval =
    JUndefined
  | JNull
  | JBool bool
  | JNum int
  | JStr string
  | JArr "jsval list"
  | JObj "(string \<times> jsval) list"

text \<open>
  The source has no \<^verbatim>\<open>throw\<close> statement. A failure of its own code is the
  runtime's \<^verbatim>\<open>TypeError\<close>, raised when a property is read from
  \<^verbatim>\<open>undefined\<close> or \<^verbatim>\<open>null\<close> or when a property that is not a function is
  called; the error carries the name of that property, which is all the runtime reports.
  The only other failure is a promise of the prediction service that rejects, with
  whatever reason the service gives.
\<close>

datatype error = TypeError string | Rejection jsval

text \<open>\<^verbatim>\<open>v.length\<close>\<close>

fun js_length :: "jsval \<Rightarrow> error + jsval" where
  "js_length JUndefined = Inl (TypeError ''length'')"
| "js_length JNull = Inl (TypeError ''length'')"
| "js_length (JStr s) = Inr (JNum (int (length s)))"
| "js_length (JArr xs) = Inr (JNum (int (length xs)))"
| "js_length (JObj ps) = Inr (case map_of ps ''length'' of Some v \<Rightarrow> v | None \<Rightarrow> JUndefined)"
| "js_length (JBool b) = Inr JUndefined"
| "js_length (JNum n) = Inr JUndefined"

text \<open>
  \<^verbatim>\<open>v.length === 0\<close>: what \<^verbatim>\<open>parseInput\<close> takes for an empty field. It holds
  of the empty array and of the empty string, the placeholder that the datapoint editor
  leaves where a list was expected.
\<close>

definition emptyValue :: "jsval \<Rightarrow> bool" where
  "emptyValue v = (js_length v = Inr (JNum 0))"

text \<open>
  \<^verbatim>\<open>d.start\<close>, \<^verbatim>\<open>d.end\<close>, \<^verbatim>\<open>d.label\<close>: reading a data property.
  Strings, arrays, numbers and booleans have no property of these names.
\<close>

fun js_field :: "jsval \<Rightarrow> string \<Rightarrow> error + jsval" where
  "js_field JUndefined p = Inl (TypeError p)"
| "js_field JNull p = Inl (TypeError p)"
| "js_field (JObj ps) p = Inr (case map_of ps p of Some v \<Rightarrow> v | None \<Rightarrow> JUndefined)"
| "js_field (JBool b) p = Inr JUndefined"
| "js_field (JNum n) p = Inr JUndefined"
| "js_field (JStr s) p = Inr JUndefined"
| "js_field (JArr xs) p = Inr JUndefined"

text \<open>
  \<^verbatim>\<open>xs.map(f)\<close>, where the callback gets the element and its index and may fail.
  Only an array has a callable \<^verbatim>\<open>map\<close>; on any other value the call is a TypeError.
\<close>

fun map_from :: "(jsval \<Rightarrow> int \<Rightarrow> error + jsval) \<Rightarrow> int \<Rightarrow> jsval list \<Rightarrow> error + jsval list" where
  "map_from f i [] = Inr []"
| "map_from f i (x # xs) =
     (case f x i of
        Inl e \<Rightarrow> Inl e
      | Inr y \<Rightarrow> (case map_from f (i + 1) xs of Inl e \<Rightarrow> Inl e | Inr ys \<Rightarrow> Inr (y # ys)))"

fun js_map :: "(jsval \<Rightarrow> int \<Rightarrow> error + jsval) \<Rightarrow> jsval \<Rightarrow> error + jsval" where
  "js_map f (JArr xs) = (case map_from f 0 xs of Inl e \<Rightarrow> Inl e | Inr ys \<Rightarrow> Inr (JArr ys))"
| "js_map f v = Inl (TypeError ''map'')"

text \<open>
  \<^verbatim>\<open>s.split()\<close> with no separator: \<^verbatim>\<open>String.prototype.split\<close> returns an array
  whose only element is the whole string. No other value has a callable \<^verbatim>\<open>split\<close>.
\<close>

fun js_split :: "jsval \<Rightarrow> error + jsval" where
  "js_split (JStr s) = Inr (JArr [JStr s])"
| "js_split v = Inl (TypeError ''split'')"

text \<open>\<^verbatim>\<open>data[key]\<close> on a record: an absent property reads as \<^verbatim>\<open>undefined\<close>.\<close>

type_synonym Input = "string \<rightharpoonup> jsval"

definition js_get :: "Input \<Rightarrow> string \<Rightarrow> jsval" where
  "js_get data key = (case data key of Some v \<Rightarrow> v | None \<Rightarrow> JUndefined)"

section \<open>Specs\<close>

text \<open>
  Modelled from the spec: the types \<^verbatim>\<open>LitName\<close>, \<^verbatim>\<open>LitType\<close> and
  \<^verbatim>\<open>Spec\<close> of \<^verbatim>\<open>lib/types\<close> are not among the sources. The spec has a
  \<^verbatim>\<open>Spec\<close> map a field name to a descriptor with a kind, one of Tokens, TextSegment,
  SequenceTags, SpanLabels, EdgeLabels and others, and an optional \<^verbatim>\<open>align\<close>, the
  name of a token field. The source reads \<^verbatim>\<open>spec[tagKey].align\<close> and iterates the
  keys of a spec in order, so a spec is the list of its fields, with distinct names.
\<close>

datatype LitName = Tokens | TextSegment | SequenceTags | SpanLabels | EdgeLabels | OtherType string

record LitType =
  kind :: LitName
  align :: "string option"

type_synonym Spec = "(string \<times> LitType) list"

text \<open>
  Modelled from the spec: \<^verbatim>\<open>isLitSubtype\<close> of \<^verbatim>\<open>lib/utils\<close> is not among the
  sources. The spec describes a field descriptor by its kind, and a field as being of a
  kind asked for when its kind is one of them. The source calls it with one kind or with
  a list of kinds; the model takes a list.
\<close>

definition isLitSubtype :: "LitType \<Rightarrow> LitName list \<Rightarrow> bool" where
  "isLitSubtype litType typesToFind = (kind litType \<in> set typesToFind)"

text \<open>
  Modelled from the spec: \<^verbatim>\<open>findSpecKeys\<close> of \<^verbatim>\<open>lib/utils\<close> is not among the
  sources. The spec has it collect the names of the fields whose kind is one of the kinds
  asked for, in the iteration order of the spec.
\<close>

definition findSpecKeys :: "Spec \<Rightarrow> LitName list \<Rightarrow> string list" where
  "findSpecKeys spec typesToFind = map fst (filter (\<lambda>(key, litType). isLitSubtype litType typesToFind) spec)"

definition supportedPredTypes :: "LitName list" where
  "supportedPredTypes = [SequenceTags, SpanLabels, EdgeLabels]"

section \<open>Edges\<close>

text \<open>The object literal \<^verbatim>\<open>{span1: [a, b], label}\<close>.\<close>

definition EdgeLabel :: "jsval \<Rightarrow> jsval \<Rightarrow> jsval \<Rightarrow> jsval" where
  "EdgeLabel a b label = JObj [(''span1'', JArr [a, b]), (''label'', label)]"

definition tagsToEdges :: "jsval \<Rightarrow> error + jsval" where
  "tagsToEdges tags = js_map (\<lambda>label i. Inr (EdgeLabel (JNum i) (JNum (i + 1)) label)) tags"

definition spansToEdges :: "jsval \<Rightarrow> error + jsval" where
  "spansToEdges spans =
     js_map (\<lambda>d i.
       case js_field d ''start'' of
         Inl e \<Rightarrow> Inl e
       | Inr s \<Rightarrow>
          (case js_field d ''end'' of
             Inl e \<Rightarrow> Inl e
           | Inr t \<Rightarrow>
              (case js_field d ''label'' of
                 Inl e \<Rightarrow> Inl e
               | Inr l \<Rightarrow> Inr (EdgeLabel s t l)))) spans"

section \<open>Grouping the tag fields under their token field\<close>

text \<open>
  \<^verbatim>\<open>FieldNameMultimap\<close>: the object \<^verbatim>\<open>tokenToTags\<close>, its keys in insertion
  order. Assigning a property keeps the place of a key that is present and appends a new
  one, as \<^const>\<open>AList.update\<close> does.
\<close>

type_synonym FieldNameMultimap = "(string \<times> string list) list"

text \<open>
  \<^verbatim>\<open>spec[tagKey].align as string\<close>, used as a property key: an absent
  \<^verbatim>\<open>align\<close> is \<^verbatim>\<open>undefined\<close>, which as a key is the string
  \<^verbatim>\<open>"undefined"\<close>.
\<close>

definition alignKey :: "Spec \<Rightarrow> string \<Rightarrow> error + string" where
  "alignKey spec tagKey =
     (case map_of spec tagKey of
        None \<Rightarrow> Inl (TypeError ''align'')
      | Some litType \<Rightarrow> Inr (case align litType of Some tokenKey \<Rightarrow> tokenKey | None \<Rightarrow> ''undefined''))"

text \<open>
  The second loop of \<^verbatim>\<open>mapTokenToTags\<close>:
  \<^verbatim>\<open>tokenToTags[tokenKey].push(tagKey)\<close> for each tag key. When
  \<^verbatim>\<open>tokenToTags\<close> has no such key the read is \<^verbatim>\<open>undefined\<close> and reading
  its \<^verbatim>\<open>push\<close> is the runtime's TypeError.
\<close>

fun pushTags :: "Spec \<Rightarrow> string list \<Rightarrow> FieldNameMultimap \<Rightarrow> error + FieldNameMultimap" where
  "pushTags spec [] tokenToTags = Inr tokenToTags"
| "pushTags spec (tagKey # tagKeys) tokenToTags =
     (case alignKey spec tagKey of
        Inl e \<Rightarrow> Inl e
      | Inr tokenKey \<Rightarrow>
         (case map_of tokenToTags tokenKey of
            None \<Rightarrow> Inl (TypeError ''push'')
          | Some tags \<Rightarrow> pushTags spec tagKeys (AList.update tokenKey (tags @ [tagKey]) tokenToTags)))"

definition mapTokenToTags :: "Spec \<Rightarrow> error + FieldNameMultimap" where
  "mapTokenToTags spec =
     (let tagKeys = findSpecKeys spec supportedPredTypes;
          tokenKeys = findSpecKeys spec [Tokens];
          tokenToTags = fold (\<lambda>tokenKey m. AList.update tokenKey [] m) tokenKeys []
      in pushTags spec tagKeys tokenToTags)"

section \<open>Normalising a record\<close>

text \<open>
  Modelled from the spec: the types \<^verbatim>\<open>AnnotationLayer\<close> and \<^verbatim>\<open>SpanGraph\<close> of
  \<^verbatim>\<open>elements/span_graph_vis\<close> are not among the sources. Their fields are those of
  the object literals that \<^verbatim>\<open>parseInput\<close> builds, \<^verbatim>\<open>{name: tagKey, edges}\<close> and
  \<^verbatim>\<open>{tokens, layers: annotationLayers}\<close>, which the spec lists as the annotation layer
  and the token annotation set. \<^verbatim>\<open>Annotations\<close> is declared in the source: an object
  from token keys to span graphs.
\<close>

record AnnotationLayer =
  name :: string
  edges :: jsval

record SpanGraph =
  tokens :: jsval
  layers :: "AnnotationLayer list"

type_synonym Annotations = "(string \<times> SpanGraph) list"

text \<open>
  The body of the inner loop of \<^verbatim>\<open>parseInput\<close> (lines 114 to 127): the layer of
  one tag field. A tag key is a key of the spec; were \<^verbatim>\<open>spec[tagKey]\<close>
  \<^verbatim>\<open>undefined\<close>, \<^verbatim>\<open>isLitSubtype\<close> would have no descriptor to read.
\<close>

definition annotationLayer :: "Input \<Rightarrow> Spec \<Rightarrow> string \<Rightarrow> error + AnnotationLayer" where
  "annotationLayer data spec tagKey =
     (let raw = js_get data tagKey in
      case js_length raw of
        Inl e \<Rightarrow> Inl e
      | Inr len \<Rightarrow>
         (let es = (if len = JNum 0 then JArr [] else raw) in
          case map_of spec tagKey of
            None \<Rightarrow> Inl (TypeError ''isLitSubtype'')
          | Some litType \<Rightarrow>
             (case (if isLitSubtype litType [SequenceTags] then tagsToEdges es
                    else if isLitSubtype litType [SpanLabels] then spansToEdges es
                    else Inr es) of
                Inl e \<Rightarrow> Inl e
              | Inr es' \<Rightarrow> Inr \<lparr>name = tagKey, edges = es'\<rparr>)))"

text \<open>The inner loop: \<^verbatim>\<open>annotationLayers.push(...)\<close> for each tag key.\<close>

fun pushLayers :: "Input \<Rightarrow> Spec \<Rightarrow> string list \<Rightarrow> AnnotationLayer list \<Rightarrow> error + AnnotationLayer list" where
  "pushLayers data spec [] annotationLayers = Inr annotationLayers"
| "pushLayers data spec (tagKey # tagKeys) annotationLayers =
     (case annotationLayer data spec tagKey of
        Inl e \<Rightarrow> Inl e
      | Inr l \<Rightarrow> pushLayers data spec tagKeys (annotationLayers @ [l]))"

text \<open>
  Lines 130 to 134: the tokens of a token field, inferred from the first TextSegment
  field when the field is empty. \<^verbatim>\<open>findSpecKeys(spec, 'TextSegment')[0]\<close> is
  \<^verbatim>\<open>undefined\<close> when the spec has no such field, and \<^verbatim>\<open>data[undefined]\<close>
  reads the property named \<^verbatim>\<open>"undefined"\<close>.
\<close>

definition textKey :: "Spec \<Rightarrow> string" where
  "textKey spec = (case findSpecKeys spec [TextSegment] of [] \<Rightarrow> ''undefined'' | key # keys \<Rightarrow> key)"

definition inferTokens :: "Input \<Rightarrow> Spec \<Rightarrow> string \<Rightarrow> error + jsval" where
  "inferTokens data spec tokenKey =
     (let toks = js_get data tokenKey in
      case js_length toks of
        Inl e \<Rightarrow> Inl e
      | Inr len \<Rightarrow>
         if len = JNum 0 then js_split (js_get data (textKey spec)) else Inr toks)"

text \<open>
  The outer loop over \<^verbatim>\<open>Object.keys(tokenToTags)\<close>. Iterating
  \<^verbatim>\<open>tokenToTags[tokenKey]\<close> when it is \<^verbatim>\<open>undefined\<close> would be a TypeError
  (it is not iterable); the keys come from the object itself, so that never happens.
\<close>

fun parseGroups :: "Input \<Rightarrow> Spec \<Rightarrow> FieldNameMultimap \<Rightarrow> string list \<Rightarrow> Annotations \<Rightarrow> error + Annotations" where
  "parseGroups data spec tokenToTags [] ret = Inr ret"
| "parseGroups data spec tokenToTags (tokenKey # tokenKeys) ret =
     (case map_of tokenToTags tokenKey of
        None \<Rightarrow> Inl (TypeError ''Symbol.iterator'')
      | Some tagKeys \<Rightarrow>
         (case pushLayers data spec tagKeys [] of
            Inl e \<Rightarrow> Inl e
          | Inr annotationLayers \<Rightarrow>
             (case inferTokens data spec tokenKey of
                Inl e \<Rightarrow> Inl e
              | Inr toks \<Rightarrow>
                 parseGroups data spec tokenToTags tokenKeys
                   (AList.update tokenKey \<lparr>tokens = toks, layers = annotationLayers\<rparr> ret))))"

definition parseInput :: "Input \<Rightarrow> Spec \<Rightarrow> error + Annotations" where
  "parseInput data spec =
     (case mapTokenToTags spec of
        Inl e \<Rightarrow> Inl e
      | Inr tokenToTags \<Rightarrow> parseGroups data spec tokenToTags (map fst tokenToTags) [])"

text \<open>\<^verbatim>\<open>SpanGraphGoldModule.shouldDisplayModule\<close>; the model specs are not read.\<close>

definition shouldDisplayModule :: "'m \<Rightarrow> Spec \<Rightarrow> bool" where
  "shouldDisplayModule modelSpecs datasetSpec =
     (let hasTokens = length (findSpecKeys datasetSpec [Tokens]) > 0;
          hasSupportedPreds = length (findSpecKeys datasetSpec supportedPredTypes) > 0
      in hasTokens \<and> hasSupportedPreds)"

section \<open>An example spec and record\<close>

text \<open>
  A spec with a text field, two token fields and a tag field aligned to each, and a record
  of it in which \<^verbatim>\<open>tokens\<close> is empty and \<^verbatim>\<open>ner\<close> is the placeholder
  \<^verbatim>\<open>""\<close>.
\<close>

definition exampleSpec :: Spec where
  "exampleSpec =
     [(''text'', \<lparr>kind = TextSegment, align = None\<rparr>),
      (''tokens'', \<lparr>kind = Tokens, align = None\<rparr>),
      (''subwords'', \<lparr>kind = Tokens, align = None\<rparr>),
      (''pos'', \<lparr>kind = SequenceTags, align = Some ''subwords''\<rparr>),
      (''ner'', \<lparr>kind = SpanLabels, align = Some ''tokens''\<rparr>)]"

definition exampleRecord :: Input where
  "exampleRecord =
     [''text'' \<mapsto> JStr ''a b'',
      ''tokens'' \<mapsto> JArr [],
      ''subwords'' \<mapsto> JArr [JStr ''a'', JStr ''b''],
      ''pos'' \<mapsto> JArr [JStr ''X'', JStr ''Y''],
      ''ner'' \<mapsto> JStr []]"

definition exampleAnnotations :: Annotations where
  "exampleAnnotations =
     [(''tokens'', \<lparr>tokens = JArr [JStr ''a b''], layers = [\<lparr>name = ''ner'', edges = JArr []\<rparr>]\<rparr>),
      (''subwords'',
       \<lparr>tokens = JArr [JStr ''a'', JStr ''b''],
        layers = [\<lparr>name = ''pos'',
                   edges = JArr [EdgeLabel (JNum 0) (JNum 1) (JStr ''X''),
                                 EdgeLabel (JNum 1) (JNum 2) (JStr ''Y'')]\<rparr>]\<rparr>)]"

text \<open>A spec whose tag field is aligned to a field that is not a token field.\<close>

definition unalignedSpec :: Spec where
  "unalignedSpec =
     [(''tokens'', \<lparr>kind = Tokens, align = None\<rparr>),
      (''pos'', \<lparr>kind = SequenceTags, align = Some ''words''\<rparr>)]"

text \<open>A spec with a token field and nothing else.\<close>

definition tokensOnlySpec :: Spec where
  "tokensOnlySpec = [(''tokens'', \<lparr>kind = Tokens, align = None\<rparr>)]"

section \<open>The loading coordinator\<close>

text \<open>
  A promise is known to \<^verbatim>\<open>loadLatest\<close> by its identity only, and settles once,
  fulfilled with a value or rejected.
\<close>

type_synonym promise = nat

datatype 'a settled = Fulfilled 'a | Rejected jsval

text \<open>
  The state of a \<^verbatim>\<open>LitModule\<close> that \<^verbatim>\<open>loadLatest\<close> touches: its private map
  \<^verbatim>\<open>latestLoadPromises\<close> and the loading flag of the parent widget, which the module
  writes through the callback \<^verbatim>\<open>setIsLoading\<close> and never otherwise.
\<close>

record LitModule =
  latestLoadPromises :: "string \<rightharpoonup> promise"
  isLoading :: bool

definition setIsLoading :: "bool \<Rightarrow> 'z LitModule_scheme \<Rightarrow> 'z LitModule_scheme" where
  "setIsLoading status m = m\<lparr>isLoading := status\<rparr>"

text \<open>
  \<^verbatim>\<open>loadLatest\<close> is an async function. A call runs lines 84 and 85 and suspends at
  \<^verbatim>\<open>await promise\<close>; when the promise has settled, the rest runs as a job of its own,
  after whatever else ran in between. A rejection is thrown at the \<^verbatim>\<open>await\<close>: nothing
  after it runs and the promise that \<^verbatim>\<open>loadLatest\<close> returned rejects with the same
  reason. The result is how that promise settles: \<open>Inl\<close> a rejection, \<open>Inr None\<close>
  for \<^verbatim>\<open>null\<close>, \<open>Inr (Some result)\<close> for the value.
\<close>

definition loadLatest_call :: "string \<Rightarrow> promise \<Rightarrow> 'z LitModule_scheme \<Rightarrow> 'z LitModule_scheme" where
  "loadLatest_call key p m =
     setIsLoading True (m\<lparr>latestLoadPromises := (latestLoadPromises m)(key \<mapsto> p)\<rparr>)"

definition loadLatest_resume ::
  "string \<Rightarrow> promise \<Rightarrow> 'a settled \<Rightarrow> 'z LitModule_scheme \<Rightarrow> (error + 'a option) \<times> 'z LitModule_scheme" where
  "loadLatest_resume key p outcome m =
     (case outcome of
        Rejected reason \<Rightarrow> (Inl (Rejection reason), m)
      | Fulfilled result \<Rightarrow>
         if latestLoadPromises m key = Some p
         then (Inr (Some result),
               (setIsLoading False m)\<lparr>latestLoadPromises := (latestLoadPromises m)(key := None)\<rparr>)
         else (Inr None, m))"

text \<open>
  A run of a module: calls of \<^verbatim>\<open>loadLatest\<close> and resumptions of suspended calls, in
  the order in which the single thread executes them. The log records what each call
  returned to its caller.
\<close>

datatype 'a event = Call string promise | Resume string promise "'a settled"

fun keyOf :: "'a event \<Rightarrow> string" where
  "keyOf (Call key p) = key"
| "keyOf (Resume key p outcome) = key"

type_synonym 'a returns = "(string \<times> promise \<times> (error + 'a option)) list"

fun step :: "'a event \<Rightarrow> 'z LitModule_scheme \<times> 'a returns \<Rightarrow> 'z LitModule_scheme \<times> 'a returns" where
  "step (Call key p) (m, log) = (loadLatest_call key p m, log)"
| "step (Resume key p outcome) (m, log) =
     (case loadLatest_resume key p outcome m of (r, m') \<Rightarrow> (m', log @ [(key, p, r)]))"

definition run :: "'a event list \<Rightarrow> 'z LitModule_scheme \<Rightarrow> 'z LitModule_scheme \<times> 'a returns" where
  "run es m = fold step es (m, [])"

text \<open>
  The results committed under a key: the values that calls under that key returned
  other than \<^verbatim>\<open>null\<close>, with the promise they came from, in order.
\<close>

fun committed :: "string \<Rightarrow> 'a returns \<Rightarrow> (promise \<times> 'a) list" where
  "committed key [] = []"
| "committed key ((k, p, Inr (Some result)) # log) =
     (if k = key then (p, result) # committed key log else committed key log)"
| "committed key ((k, p, r) # log) = committed key log"

text \<open>What a run has done under one key: the handle stored and the results committed.\<close>

definition keyView :: "string \<Rightarrow> 'z LitModule_scheme \<times> 'a returns \<Rightarrow> promise option \<times> (promise \<times> 'a) list" where
  "keyView key s = (latestLoadPromises (fst s) key, committed key (snd s))"

section \<open>The module of model predictions\<close>

text \<open>
  \<^verbatim>\<open>SpanGraphModule\<close>: a \<^verbatim>\<open>LitModule\<close> with the observable
  \<^verbatim>\<open>predDisplayData\<close>. \<^verbatim>\<open>predSpec\<close> is computed from the application state, which
  the module only reads. The prediction service is reached through
  \<^verbatim>\<open>apiService.getPreds\<close> alone; \<^verbatim>\<open>getPredsCalls\<close> lists the requests made
  (the inputs and the field types asked for), and the promise a request returns is a new
  one, identified by the position of the request in that list.
\<close>

record 'i SpanGraphModule = LitModule +
  predSpec :: Spec
  predDisplayData :: Annotations
  getPredsCalls :: "('i list \<times> LitName list) list"

text \<open>
  Modelled from the spec: \<^verbatim>\<open>ApiService\<close> of \<^verbatim>\<open>services/services\<close> is not among
  the sources. The spec has the prediction service take the inputs and the field kinds
  required (and the model and dataset names, which the module does not change) and return
  a promise of the list of records.
\<close>

definition getPreds ::
  "'i list \<Rightarrow> LitName list \<Rightarrow> ('i, 'z) SpanGraphModule_scheme \<Rightarrow> promise \<times> ('i, 'z) SpanGraphModule_scheme" where
  "getPreds inputs requestedTypes m =
     (length (getPredsCalls m), m\<lparr>getPredsCalls := getPredsCalls m @ [(inputs, requestedTypes)]\<rparr>)"

text \<open>
  \<^verbatim>\<open>updatePredDisplayData\<close> up to its \<^verbatim>\<open>await\<close>. It returns \<open>None\<close> when the
  call ran to its end, and \<open>Some p\<close> when it is suspended on
  \<^verbatim>\<open>loadLatest('getPreds', p)\<close>.
\<close>

definition updatePredDisplayData_call ::
  "'i option \<Rightarrow> ('i, 'z) SpanGraphModule_scheme \<Rightarrow> promise option \<times> ('i, 'z) SpanGraphModule_scheme" where
  "updatePredDisplayData_call input m =
     (case input of
        None \<Rightarrow> (None, m\<lparr>predDisplayData := []\<rparr>)
      | Some i \<Rightarrow>
         (case getPreds [i] (Tokens # supportedPredTypes) m of
            (p, m') \<Rightarrow> (Some p, loadLatest_call ''getPreds'' p m')))"

text \<open>
  \<^verbatim>\<open>parseInput(results[0], spec)\<close>. When \<^verbatim>\<open>results\<close> is empty,
  \<^verbatim>\<open>results[0]\<close> is \<^verbatim>\<open>undefined\<close>, and the first \<^verbatim>\<open>data[...]\<close> that
  \<^verbatim>\<open>parseInput\<close> reads is a TypeError: the first tag key of the first token field, or
  that token field when it has no tag.
\<close>

definition parseFirst :: "Input list \<Rightarrow> Spec \<Rightarrow> error + Annotations" where
  "parseFirst results spec =
     (case results of
        d # ds \<Rightarrow> parseInput d spec
      | [] \<Rightarrow>
         (case mapTokenToTags spec of
            Inl e \<Rightarrow> Inl e
          | Inr [] \<Rightarrow> Inr []
          | Inr ((tokenKey, tagKeys) # groups) \<Rightarrow>
             Inl (TypeError (case tagKeys of [] \<Rightarrow> tokenKey | tagKey # ts \<Rightarrow> tagKey))))"

text \<open>
  The rest of \<^verbatim>\<open>updatePredDisplayData\<close>, run when the promise of
  \<^verbatim>\<open>loadLatest\<close> has settled with \<open>r\<close>. An array is never falsy, so
  \<^verbatim>\<open>!results\<close> holds for \<^verbatim>\<open>null\<close> only.
\<close>

definition updatePredDisplayData_resume ::
  "error + Input list option \<Rightarrow> ('i, 'z) SpanGraphModule_scheme \<Rightarrow> (error + unit) \<times> ('i, 'z) SpanGraphModule_scheme" where
  "updatePredDisplayData_resume r m =
     (case r of
        Inl e \<Rightarrow> (Inl e, m)
      | Inr None \<Rightarrow> (Inr (), m)
      | Inr (Some results) \<Rightarrow>
         (case parseFirst results (predSpec m) of
            Inl e \<Rightarrow> (Inl e, m)
          | Inr annotations \<Rightarrow> (Inr (), m\<lparr>predDisplayData := annotations\<rparr>)))"

text \<open>
  A run of the module of model predictions. The reaction to the selection calls
  \<^verbatim>\<open>updatePredDisplayData\<close>; when the promise of a request has settled, the suspended
  \<^verbatim>\<open>loadLatest\<close> resumes and settles its own promise; after that, as a further job,
  the suspended \<^verbatim>\<open>updatePredDisplayData\<close> resumes with what \<^verbatim>\<open>loadLatest\<close>
  returned. Beside the module, the state of a run holds the settled returns of
  \<^verbatim>\<open>loadLatest\<close> whose caller has not resumed yet; a caller cannot resume before.
\<close>

datatype 'i moduleEvent = Select "'i option" | Settle promise "Input list settled" | Continue promise

type_synonym awaited = "promise \<rightharpoonup> error + Input list option"

fun moduleStep ::
  "'i moduleEvent \<Rightarrow> ('i, 'z) SpanGraphModule_scheme \<times> awaited \<Rightarrow> ('i, 'z) SpanGraphModule_scheme \<times> awaited" where
  "moduleStep (Select input) (m, rs) = (snd (updatePredDisplayData_call input m), rs)"
| "moduleStep (Settle p outcome) (m, rs) =
     (case loadLatest_resume ''getPreds'' p outcome m of (r, m') \<Rightarrow> (m', rs(p \<mapsto> r)))"
| "moduleStep (Continue p) (m, rs) =
     (case rs p of
        None \<Rightarrow> (m, rs)
      | Some r \<Rightarrow> (snd (updatePredDisplayData_resume r m), rs(p := None)))"

text \<open>
  The visible annotation state along a run: the value of \<^verbatim>\<open>predDisplayData\<close> at the
  start and after each event.
\<close>

fun visible ::
  "'i moduleEvent list \<Rightarrow> ('i, 'z) SpanGraphModule_scheme \<times> awaited \<Rightarrow> Annotations list" where
  "visible [] s = [predDisplayData (fst s)]"
| "visible (e # es) s = predDisplayData (fst s) # visible es (moduleStep e s)"

text \<open>
  What the module shows once an operation has been committed: the result normalised, or
  what was shown before when the operation was rejected or its result cannot be
  normalised.
\<close>

definition shownAfter :: "Input list settled \<Rightarrow> ('i, 'z) SpanGraphModule_scheme \<Rightarrow> Annotations" where
  "shownAfter outcome m =
     (case outcome of
        Rejected reason \<Rightarrow> predDisplayData m
      | Fulfilled results \<Rightarrow>
         (case parseFirst results (predSpec m) of
            Inl e \<Rightarrow> predDisplayData m
          | Inr annotations \<Rightarrow> annotations))"

text \<open>
  A module whose model has the tokens-only spec, with nothing shown and no request made,
  and two results of the prediction service for it.
\<close>

definition exampleModule :: "string SpanGraphModule" where
  "exampleModule =
     \<lparr>latestLoadPromises = Map.empty, isLoading = False,
      predSpec = tokensOnlySpec, predDisplayData = [], getPredsCalls = []\<rparr>"

definition resultA :: "Input list" where
  "resultA = [[''tokens'' \<mapsto> JArr [JStr ''a'']]]"

definition resultB :: "Input list" where
  "resultB = [[''tokens'' \<mapsto> JArr [JStr ''b'']]]"

definition shownA :: Annotations where
  "shownA = [(''tokens'', \<lparr>tokens = JArr [JStr ''a''], layers = []\<rparr>)]"

definition shownB :: Annotations where
  "shownB = [(''tokens'', \<lparr>tokens = JArr [JStr ''b''], layers = []\<rparr>)]"

section \<open>The writes of the normaliser\<close>

text \<open>
  \<^verbatim>\<open>mapTokenToTags\<close> and \<^verbatim>\<open>parseInput\<close> once more, with the objects they are
  given and the objects they create held in a store, so that every assignment to a
  property and every \<^verbatim>\<open>push\<close> of the source is a write at an address. The record and
  the spec are passed by reference. The objects that the function writes after it has
  created them are cells that it allocates: \<^verbatim>\<open>tokenToTags\<close> (with the arrays of
  line 97, which are reached through it alone), \<^verbatim>\<open>ret\<close> and each
  \<^verbatim>\<open>annotationLayers\<close>. An object that is built and not written again (an edge, a
  layer, the array that \<^verbatim>\<open>map\<close> returns, a span graph) is a value. An address is a
  position in the store and a new object goes to its end; a reference that the program
  holds is always valid, so what a read yields at an address without a cell of the
  expected kind is of no consequence.
\<close>

type_synonym addr = nat

datatype cell =
    InputCell Input
  | SpecCell Spec
  | MultimapCell FieldNameMultimap
  | LayersCell "AnnotationLayer list"
  | AnnotationsCell Annotations

type_synonym store = "cell list"

definition alloc :: "cell \<Rightarrow> store \<Rightarrow> addr \<times> store" where
  "alloc c h = (length h, h @ [c])"

definition inputAt :: "store \<Rightarrow> addr \<Rightarrow> Input" where
  "inputAt h a = (if a < length h then (case h ! a of InputCell data \<Rightarrow> data | _ \<Rightarrow> Map.empty) else Map.empty)"

definition specAt :: "store \<Rightarrow> addr \<Rightarrow> Spec" where
  "specAt h a = (if a < length h then (case h ! a of SpecCell spec \<Rightarrow> spec | _ \<Rightarrow> []) else [])"

definition multimapAt :: "store \<Rightarrow> addr \<Rightarrow> FieldNameMultimap" where
  "multimapAt h a = (if a < length h then (case h ! a of MultimapCell m \<Rightarrow> m | _ \<Rightarrow> []) else [])"

definition layersAt :: "store \<Rightarrow> addr \<Rightarrow> AnnotationLayer list" where
  "layersAt h a = (if a < length h then (case h ! a of LayersCell ls \<Rightarrow> ls | _ \<Rightarrow> []) else [])"

definition annotationsAt :: "store \<Rightarrow> addr \<Rightarrow> Annotations" where
  "annotationsAt h a = (if a < length h then (case h ! a of AnnotationsCell ret \<Rightarrow> ret | _ \<Rightarrow> []) else [])"

text \<open>Lines 96 to 98: \<^verbatim>\<open>tokenToTags[tokenKey] = []\<close>, on the object at \<open>t\<close>.\<close>

fun seedTokens_st :: "addr \<Rightarrow> string list \<Rightarrow> store \<Rightarrow> store" where
  "seedTokens_st t [] h = h"
| "seedTokens_st t (tokenKey # tokenKeys) h =
     seedTokens_st t tokenKeys (h[t := MultimapCell (AList.update tokenKey [] (multimapAt h t))])"

text \<open>
  Lines 99 to 102: \<^verbatim>\<open>spec[tagKey].align\<close> is read from the spec at \<open>s\<close>, the
  \<^verbatim>\<open>push\<close> writes the object at \<open>t\<close>.
\<close>

fun pushTags_st :: "addr \<Rightarrow> addr \<Rightarrow> string list \<Rightarrow> store \<Rightarrow> (error + unit) \<times> store" where
  "pushTags_st s t [] h = (Inr (), h)"
| "pushTags_st s t (tagKey # tagKeys) h =
     (case alignKey (specAt h s) tagKey of
        Inl e \<Rightarrow> (Inl e, h)
      | Inr tokenKey \<Rightarrow>
         (case map_of (multimapAt h t) tokenKey of
            None \<Rightarrow> (Inl (TypeError ''push''), h)
          | Some tags \<Rightarrow>
             pushTags_st s t tagKeys
               (h[t := MultimapCell (AList.update tokenKey (tags @ [tagKey]) (multimapAt h t))])))"

definition mapTokenToTags_st :: "addr \<Rightarrow> store \<Rightarrow> (error + addr) \<times> store" where
  "mapTokenToTags_st s h =
     (let tagKeys = findSpecKeys (specAt h s) supportedPredTypes;
          tokenKeys = findSpecKeys (specAt h s) [Tokens]
      in case alloc (MultimapCell []) h of
           (t, h1) \<Rightarrow>
             (case pushTags_st s t tagKeys (seedTokens_st t tokenKeys h1) of
                (Inl e, h2) \<Rightarrow> (Inl e, h2)
              | (Inr u, h2) \<Rightarrow> (Inr t, h2)))"

text \<open>
  The inner loop of \<^verbatim>\<open>parseInput\<close>: the record at \<open>d\<close> and the spec at \<open>s\<close> are
  read, \<^verbatim>\<open>edges = []\<close> rebinds a local variable and the conversions build new arrays,
  the \<^verbatim>\<open>push\<close> writes the array at \<open>a\<close>.
\<close>

fun pushLayers_st :: "addr \<Rightarrow> addr \<Rightarrow> addr \<Rightarrow> string list \<Rightarrow> store \<Rightarrow> (error + unit) \<times> store" where
  "pushLayers_st d s a [] h = (Inr (), h)"
| "pushLayers_st d s a (tagKey # tagKeys) h =
     (case annotationLayer (inputAt h d) (specAt h s) tagKey of
        Inl e \<Rightarrow> (Inl e, h)
      | Inr l \<Rightarrow> pushLayers_st d s a tagKeys (h[a := LayersCell (layersAt h a @ [l])]))"

text \<open>
  The outer loop: a new \<^verbatim>\<open>annotationLayers\<close> for each token key, and
  \<^verbatim>\<open>ret[tokenKey] = {tokens, layers: annotationLayers}\<close> on the object at \<open>r\<close>.
\<close>

fun parseGroups_st :: "addr \<Rightarrow> addr \<Rightarrow> addr \<Rightarrow> addr \<Rightarrow> string list \<Rightarrow> store \<Rightarrow> (error + unit) \<times> store" where
  "parseGroups_st d s t r [] h = (Inr (), h)"
| "parseGroups_st d s t r (tokenKey # tokenKeys) h =
     (case alloc (LayersCell []) h of
        (a, h1) \<Rightarrow>
          (case map_of (multimapAt h1 t) tokenKey of
             None \<Rightarrow> (Inl (TypeError ''Symbol.iterator''), h1)
           | Some tagKeys \<Rightarrow>
              (case pushLayers_st d s a tagKeys h1 of
                 (Inl e, h2) \<Rightarrow> (Inl e, h2)
               | (Inr u, h2) \<Rightarrow>
                  (case inferTokens (inputAt h2 d) (specAt h2 s) tokenKey of
                     Inl e \<Rightarrow> (Inl e, h2)
                   | Inr toks \<Rightarrow>
                      parseGroups_st d s t r tokenKeys
                        (h2[r := AnnotationsCell
                                   (AList.update tokenKey \<lparr>tokens = toks, layers = layersAt h2 a\<rparr>
                                      (annotationsAt h2 r))])))))"

definition parseInput_st :: "addr \<Rightarrow> addr \<Rightarrow> store \<Rightarrow> (error + addr) \<times> store" where
  "parseInput_st d s h =
     (case mapTokenToTags_st s h of
        (Inl e, h1) \<Rightarrow> (Inl e, h1)
      | (Inr t, h1) \<Rightarrow>
         (case alloc (AnnotationsCell []) h1 of
            (r, h2) \<Rightarrow>
              (case parseGroups_st d s t r (map fst (multimapAt h2 t)) h2 of
                 (Inl e, h3) \<Rightarrow> (Inl e, h3)
               | (Inr u, h3) \<Rightarrow> (Inr r, h3))))"

text \<open>
  What the caller has after a call: the error thrown, or the structure of the object
  whose reference was returned.
\<close>

definition outputOf :: "(error + addr) \<times> store \<Rightarrow> error + Annotations" where
  "outputOf res = (case res of (Inl e, h) \<Rightarrow> Inl e | (Inr r, h) \<Rightarrow> Inr (annotationsAt h r))"

section \<open>Properties of the edge conversions\<close>




section \<open>Properties of the grouping and of the normaliser\<close>

lemma findSpecKeys_iff:
  "key \<in> set (findSpecKeys spec types) \<longleftrightarrow> (\<exists>litType. (key, litType) \<in> set spec \<and> kind litType \<in> set types)"
  by (force simp: findSpecKeys_def isLitSubtype_def)

lemma findSpecKeys_in_spec:
  "key \<in> set (findSpecKeys spec types) \<Longrightarrow> map_of spec key \<noteq> None"
  by (auto simp: findSpecKeys_iff dest: weak_map_of_SomeI)

lemma seed_keys:
  "fst ` set (fold (\<lambda>tokenKey m. AList.update tokenKey [] m) ks m0) = set ks \<union> fst ` set m0"
  by (induction ks arbitrary: m0) (auto simp: dom_update)

lemma seed_map_of:
  "map_of (fold (\<lambda>tokenKey m. AList.update tokenKey [] m) ks m0) k =
     (if k \<in> set ks then Some [] else map_of m0 k)"
  by (induction ks arbitrary: m0) (auto simp: update_conv')

lemma pushTags_Inr:
  "pushTags spec tks m = Inr m' \<Longrightarrow>
     fst ` set m' = fst ` set m
   \<and> (\<forall>k. map_of m' k = map_option (\<lambda>xs. xs @ filter (\<lambda>t. alignKey spec t = Inr k) tks) (map_of m k))
   \<and> (\<forall>t\<in>set tks. \<exists>k\<in>fst ` set m. alignKey spec t = Inr k)"
proof (induction tks arbitrary: m)
  case Nil
  then show ?case by (auto simp: option.map_ident)
next
  case (Cons t tks)
  from Cons.prems obtain k0 tags where
    a: "alignKey spec t = Inr k0" and l: "map_of m k0 = Some tags"
    and rec: "pushTags spec tks (AList.update k0 (tags @ [t]) m) = Inr m'"
    by (auto split: sum.splits option.splits)
  have k0: "k0 \<in> fst ` set m"
    using l by (metis map_of_eq_None_iff option.distinct(1))
  then have keys: "fst ` set (AList.update k0 (tags @ [t]) m) = fst ` set m"
    by (auto simp: dom_update)
  note IH = Cons.IH [OF rec]
  have 1: "fst ` set m' = fst ` set m"
    using IH keys by simp
  have 2: "map_of m' k = map_option (\<lambda>xs. xs @ filter (\<lambda>t. alignKey spec t = Inr k) (t # tks)) (map_of m k)" for k
    using IH a l by (auto simp: update_conv')
  have 3: "\<forall>u\<in>set (t # tks). \<exists>k\<in>fst ` set m. alignKey spec u = Inr k"
    using IH keys a k0 by auto
  from 1 2 3 show ?case by blast
qed

lemma pushTags_unaligned:
  "\<forall>u\<in>set tks. map_of spec u \<noteq> None \<Longrightarrow> t \<in> set tks \<Longrightarrow> alignKey spec t = Inr a \<Longrightarrow>
   a \<notin> fst ` set m \<Longrightarrow> pushTags spec tks m = Inl (TypeError ''push'')"
proof (induction tks arbitrary: m)
  case Nil
  then show ?case by simp
next
  case (Cons u tks)
  from Cons.prems(1) obtain k where k: "alignKey spec u = Inr k"
    by (auto simp: alignKey_def split: option.splits)
  show ?case
  proof (cases "map_of m k")
    case None
    then show ?thesis using k by simp
  next
    case (Some tags)
    then have "k \<in> fst ` set m"
      by (metis map_of_eq_None_iff option.distinct(1))
    then have keys: "fst ` set (AList.update k (tags @ [u]) m) = fst ` set m"
      by (auto simp: dom_update)
    have "u \<noteq> t"
      using Some k Cons.prems(3,4) by (auto simp: map_of_eq_None_iff [symmetric])
    then have "t \<in> set tks" using Cons.prems(2) by simp
    from Cons.IH [OF _ this Cons.prems(3), of "AList.update k (tags @ [u]) m"] Cons.prems(1,4) keys
    have "pushTags spec tks (AList.update k (tags @ [u]) m) = Inl (TypeError ''push'')"
      by simp
    then show ?thesis using k Some by simp
  qed
qed

lemma mapTokenToTags_Inr:
  assumes "mapTokenToTags spec = Inr m"
  shows "fst ` set m = set (findSpecKeys spec [Tokens])"
    and "k \<in> set (findSpecKeys spec [Tokens]) \<Longrightarrow>
         map_of m k = Some (filter (\<lambda>t. alignKey spec t = Inr k) (findSpecKeys spec supportedPredTypes))"
    and "t \<in> set (findSpecKeys spec supportedPredTypes) \<Longrightarrow>
         \<exists>k\<in>set (findSpecKeys spec [Tokens]). alignKey spec t = Inr k"
proof -
  let ?seed = "fold (\<lambda>tokenKey m. AList.update tokenKey [] m) (findSpecKeys spec [Tokens]) []"
  have "pushTags spec (findSpecKeys spec supportedPredTypes) ?seed = Inr m"
    using assms by (simp add: mapTokenToTags_def)
  note P = pushTags_Inr [OF this]
  show "fst ` set m = set (findSpecKeys spec [Tokens])"
    using P by (simp add: seed_keys)
  show "map_of m k = Some (filter (\<lambda>t. alignKey spec t = Inr k) (findSpecKeys spec supportedPredTypes))"
    if "k \<in> set (findSpecKeys spec [Tokens])"
    using P that by (simp add: seed_map_of)
  show "\<exists>k\<in>set (findSpecKeys spec [Tokens]). alignKey spec t = Inr k"
    if "t \<in> set (findSpecKeys spec supportedPredTypes)"
    using P that by (simp add: seed_keys)
qed

lemma pushLayers_Inr:
  "pushLayers data spec tks acc = Inr ls \<Longrightarrow>
   \<exists>ls'. ls = acc @ ls' \<and> list_all2 (\<lambda>t l. annotationLayer data spec t = Inr l) tks ls'"
proof (induction tks arbitrary: acc)
  case Nil
  then show ?case by simp
next
  case (Cons t tks)
  from Cons.prems obtain l where l: "annotationLayer data spec t = Inr l"
    and rec: "pushLayers data spec tks (acc @ [l]) = Inr ls"
    by (auto split: sum.splits)
  from Cons.IH [OF rec] obtain ls' where "ls = (acc @ [l]) @ ls'"
    and "list_all2 (\<lambda>t l. annotationLayer data spec t = Inr l) tks ls'"
    by blast
  then have "ls = acc @ (l # ls') \<and> list_all2 (\<lambda>t l. annotationLayer data spec t = Inr l) (t # tks) (l # ls')"
    using l by simp
  then show ?case by blast
qed

lemma parseGroups_Inr:
  "parseGroups data spec m ks ret = Inr ret' \<Longrightarrow>
     (\<forall>k. k \<notin> set ks \<longrightarrow> map_of ret' k = map_of ret k)
   \<and> (\<forall>k\<in>set ks. \<exists>tagKeys ls toks.
         map_of m k = Some tagKeys \<and> pushLayers data spec tagKeys [] = Inr ls
       \<and> inferTokens data spec k = Inr toks \<and> map_of ret' k = Some \<lparr>tokens = toks, layers = ls\<rparr>)"
proof (induction ks arbitrary: ret)
  case Nil
  then show ?case by simp
next
  case (Cons k0 ks)
  from Cons.prems obtain tagKeys ls toks where
    m: "map_of m k0 = Some tagKeys" and ls: "pushLayers data spec tagKeys [] = Inr ls"
    and toks: "inferTokens data spec k0 = Inr toks"
    and rec: "parseGroups data spec m ks (AList.update k0 \<lparr>tokens = toks, layers = ls\<rparr> ret) = Inr ret'"
    by (auto split: sum.splits option.splits)
  note IH = Cons.IH [OF rec]
  have 1: "\<forall>k. k \<notin> set (k0 # ks) \<longrightarrow> map_of ret' k = map_of ret k"
    using IH by (auto simp: update_conv')
  have "\<exists>tagKeys ls toks.
         map_of m k0 = Some tagKeys \<and> pushLayers data spec tagKeys [] = Inr ls
       \<and> inferTokens data spec k0 = Inr toks \<and> map_of ret' k0 = Some \<lparr>tokens = toks, layers = ls\<rparr>"
  proof (cases "k0 \<in> set ks")
    case True
    then show ?thesis using IH by blast
  next
    case False
    then have "map_of ret' k0 = Some \<lparr>tokens = toks, layers = ls\<rparr>"
      using IH by (simp add: update_conv')
    then show ?thesis using m ls toks by blast
  qed
  then have 2: "\<forall>k\<in>set (k0 # ks). \<exists>tagKeys ls toks.
         map_of m k = Some tagKeys \<and> pushLayers data spec tagKeys [] = Inr ls
       \<and> inferTokens data spec k = Inr toks \<and> map_of ret' k = Some \<lparr>tokens = toks, layers = ls\<rparr>"
    using IH by auto
  from 1 2 show ?case by blast
qed

lemma parseInput_Inr:
  assumes "parseInput data spec = Inr ret"
  shows "k \<in> set (findSpecKeys spec [Tokens]) \<Longrightarrow>
         \<exists>ls toks. pushLayers data spec (filter (\<lambda>t. alignKey spec t = Inr k) (findSpecKeys spec supportedPredTypes)) [] = Inr ls
           \<and> inferTokens data spec k = Inr toks \<and> map_of ret k = Some \<lparr>tokens = toks, layers = ls\<rparr>"
    and "k \<notin> set (findSpecKeys spec [Tokens]) \<Longrightarrow> map_of ret k = None"
    and "t \<in> set (findSpecKeys spec supportedPredTypes) \<Longrightarrow>
         \<exists>k\<in>set (findSpecKeys spec [Tokens]). alignKey spec t = Inr k"
proof -
  from assms obtain m where m: "mapTokenToTags spec = Inr m"
    and g: "parseGroups data spec m (map fst m) [] = Inr ret"
    by (auto simp: parseInput_def split: sum.splits)
  note M = mapTokenToTags_Inr [OF m]
  note G = parseGroups_Inr [OF g]
  show "\<exists>ls toks. pushLayers data spec (filter (\<lambda>t. alignKey spec t = Inr k) (findSpecKeys spec supportedPredTypes)) [] = Inr ls
           \<and> inferTokens data spec k = Inr toks \<and> map_of ret k = Some \<lparr>tokens = toks, layers = ls\<rparr>"
    if k: "k \<in> set (findSpecKeys spec [Tokens])"
  proof -
    have "k \<in> set (map fst m)" using M(1) k by simp
    with G obtain tagKeys ls toks where "map_of m k = Some tagKeys" "pushLayers data spec tagKeys [] = Inr ls"
      "inferTokens data spec k = Inr toks" "map_of ret k = Some \<lparr>tokens = toks, layers = ls\<rparr>"
      by blast
    then show ?thesis using M(2) [OF k] by auto
  qed
  show "map_of ret k = None" if "k \<notin> set (findSpecKeys spec [Tokens])"
    using G M(1) that by simp
  show "\<exists>k\<in>set (findSpecKeys spec [Tokens]). alignKey spec t = Inr k"
    if "t \<in> set (findSpecKeys spec supportedPredTypes)"
    using M(3) that by blast
qed

lemma list_all2_left:
  "list_all2 P xs ys \<Longrightarrow> x \<in> set xs \<Longrightarrow> \<exists>y\<in>set ys. P x y"
  by (induction rule: list_all2_induct) auto

lemma list_all2_right:
  "list_all2 P xs ys \<Longrightarrow> y \<in> set ys \<Longrightarrow> \<exists>x\<in>set xs. P x y"
  by (induction rule: list_all2_induct) auto

lemma js_split_Inr: "js_split v = Inr toks \<Longrightarrow> \<exists>s. v = JStr s \<and> toks = JArr [JStr s]"
  by (cases v) auto

lemma js_length_Inr: "js_length v = Inr len \<Longrightarrow> v \<noteq> JUndefined \<and> v \<noteq> JNull"
  by (cases v) auto

lemma js_get_present:
  "js_get data k \<noteq> JUndefined \<and> js_get data k \<noteq> JNull \<Longrightarrow>
   \<exists>v. data k = Some v \<and> v \<noteq> JUndefined \<and> v \<noteq> JNull"
  by (cases "data k") (simp_all add: js_get_def)

lemma textKey_cases:
  "js_get data (textKey spec) = JStr s \<Longrightarrow>
     (\<exists>key keys. findSpecKeys spec [TextSegment] = key # keys \<and> data key = Some (JStr s))
   \<or> (findSpecKeys spec [TextSegment] = [] \<and> data ''undefined'' = Some (JStr s))"
  by (cases "findSpecKeys spec [TextSegment]") (auto simp: textKey_def js_get_def split: option.splits)

lemma annotationLayer_name: "annotationLayer data spec t = Inr l \<Longrightarrow> name l = t"
  by (auto simp: annotationLayer_def Let_def split: sum.splits option.splits if_splits)

lemma annotationLayer_length:
  "annotationLayer data spec t = Inr l \<Longrightarrow> \<exists>len. js_length (js_get data t) = Inr len"
  by (auto simp: annotationLayer_def Let_def split: sum.splits)

lemma inferTokens_Inr:
  assumes "inferTokens data spec k = Inr toks"
  shows "\<exists>len. js_length (js_get data k) = Inr len"
    and "\<not> emptyValue (js_get data k) \<Longrightarrow> toks = js_get data k"
    and "emptyValue (js_get data k) \<Longrightarrow>
         \<exists>s. js_get data (textKey spec) = JStr s \<and> toks = JArr [JStr s]"
  using assms
  by (auto simp: inferTokens_def emptyValue_def Let_def split: sum.splits if_splits dest: js_split_Inr)

lemma exampleSpec_keys:
  "findSpecKeys exampleSpec [Tokens] = [''tokens'', ''subwords'']"
  "findSpecKeys exampleSpec supportedPredTypes = [''pos'', ''ner'']"
  "findSpecKeys exampleSpec [TextSegment] = [''text'']"
  by (simp_all add: exampleSpec_def findSpecKeys_def isLitSubtype_def supportedPredTypes_def)

lemma parseInput_example: "parseInput exampleRecord exampleSpec = Inr exampleAnnotations"
  by (simp add: parseInput_def mapTokenToTags_def exampleSpec_keys alignKey_def exampleSpec_def
        annotationLayer_def inferTokens_def js_get_def exampleRecord_def textKey_def
        isLitSubtype_def tagsToEdges_def spansToEdges_def exampleAnnotations_def Let_def
        findSpecKeys_def supportedPredTypes_def)

text \<open>
  C3, as the code has it. For every spec (an object, so its keys are distinct) with a tag
  field, of kind SequenceTags, SpanLabels or EdgeLabels, whose \<^verbatim>\<open>align\<close> names a
  field that is not among the Tokens fields of the spec, \<^verbatim>\<open>mapTokenToTags\<close> fails: it
  returns no grouping, so the field is not silently dropped. The failure is the runtime's
  TypeError for reading \<^verbatim>\<open>push\<close> of \<^verbatim>\<open>undefined\<close>; it names neither the tag
  field nor the field it is aligned to.
\<close>

theorem mapTokenToTags_unaligned:
  assumes "distinct (map fst spec)"
    and "(tagKey, litType) \<in> set spec"
    and "kind litType \<in> set supportedPredTypes"
    and "align litType = Some target"
    and "target \<notin> set (findSpecKeys spec [Tokens])"
  shows "mapTokenToTags spec = Inl (TypeError ''push'')"
proof -
  let ?seed = "fold (\<lambda>tokenKey m. AList.update tokenKey [] m) (findSpecKeys spec [Tokens]) []"
  have t: "tagKey \<in> set (findSpecKeys spec supportedPredTypes)"
    using assms(2,3) by (auto simp: findSpecKeys_iff)
  have a: "alignKey spec tagKey = Inr target"
    using assms(1,2,4) by (simp add: alignKey_def)
  have k: "target \<notin> fst ` set ?seed"
    using assms(5) by (simp add: seed_keys)
  have "\<forall>u\<in>set (findSpecKeys spec supportedPredTypes). map_of spec u \<noteq> None"
    by (simp add: findSpecKeys_in_spec)
  from pushTags_unaligned [OF this t a k] show ?thesis
    by (simp add: mapTokenToTags_def)
qed

text \<open>
  The theorem at a spec whose span labels are aligned to the text field, which is not a
  Tokens field.
\<close>

theorem mapTokenToTags_unaligned_witness:
  "distinct (map fst [(''text'', \<lparr>kind = TextSegment, align = None\<rparr>),
                      (''tokens'', \<lparr>kind = Tokens, align = None\<rparr>),
                      (''ner'', \<lparr>kind = SpanLabels, align = Some ''text''\<rparr>)])
   \<and> ''text'' \<notin> set (findSpecKeys [(''text'', \<lparr>kind = TextSegment, align = None\<rparr>),
                                      (''tokens'', \<lparr>kind = Tokens, align = None\<rparr>),
                                      (''ner'', \<lparr>kind = SpanLabels, align = Some ''text''\<rparr>)] [Tokens])
   \<and> mapTokenToTags [(''text'', \<lparr>kind = TextSegment, align = None\<rparr>),
                      (''tokens'', \<lparr>kind = Tokens, align = None\<rparr>),
                      (''ner'', \<lparr>kind = SpanLabels, align = Some ''text''\<rparr>)]
       = Inl (TypeError ''push'')"
  using mapTokenToTags_unaligned [of
      "[(''text'', \<lparr>kind = TextSegment, align = None\<rparr>),
        (''tokens'', \<lparr>kind = Tokens, align = None\<rparr>),
        (''ner'', \<lparr>kind = SpanLabels, align = Some ''text''\<rparr>)]"
      "''ner''" "\<lparr>kind = SpanLabels, align = Some ''text''\<rparr>" "''text''"]
  by (simp add: findSpecKeys_def isLitSubtype_def supportedPredTypes_def)

text \<open>
  The claim as the spec states it asks for a descriptive "unaligned field" error. At the
  spec \<open>unalignedSpec\<close>, whose tag field \<^verbatim>\<open>pos\<close> is aligned to the absent field
  \<^verbatim>\<open>words\<close>, the error is the TypeError on \<^verbatim>\<open>push\<close>.
\<close>

theorem mapTokenToTags_unaligned_counterexample:
  "mapTokenToTags unalignedSpec = Inl (TypeError ''push'')"
  by (simp add: unalignedSpec_def mapTokenToTags_def findSpecKeys_def isLitSubtype_def
        supportedPredTypes_def alignKey_def)

text \<open>
  C4. Whenever \<^verbatim>\<open>parseInput\<close> returns, each token field of the spec has an entry in
  the result. When the value of the field in the record is not empty, the tokens are
  exactly that value. When it is empty, the tokens are what \<^verbatim>\<open>split()\<close> makes of the
  string that the record holds for the first TextSegment field of the spec: with no
  separator given, the sequence of one token that is the whole string.
\<close>

theorem parseInput_tokens:
  assumes "parseInput data spec = Inr ret"
    and "tokenKey \<in> set (findSpecKeys spec [Tokens])"
  shows "\<exists>g. map_of ret tokenKey = Some g
       \<and> (\<not> emptyValue (js_get data tokenKey) \<longrightarrow> tokens g = js_get data tokenKey)
       \<and> (emptyValue (js_get data tokenKey) \<longrightarrow>
            (\<forall>key keys. findSpecKeys spec [TextSegment] = key # keys \<longrightarrow>
               (\<exists>s. data key = Some (JStr s) \<and> js_split (JStr s) = Inr (tokens g)
                    \<and> tokens g = JArr [JStr s])))"
proof -
  from parseInput_Inr(1) [OF assms] obtain ls toks where
    toks: "inferTokens data spec tokenKey = Inr toks"
    and g: "map_of ret tokenKey = Some \<lparr>tokens = toks, layers = ls\<rparr>"
    by blast
  note T = inferTokens_Inr [OF toks]
  have "\<not> emptyValue (js_get data tokenKey) \<longrightarrow> tokens \<lparr>tokens = toks, layers = ls\<rparr> = js_get data tokenKey"
    using T(2) by simp
  moreover have "\<exists>s. data key = Some (JStr s) \<and> js_split (JStr s) = Inr (tokens \<lparr>tokens = toks, layers = ls\<rparr>)
                    \<and> tokens \<lparr>tokens = toks, layers = ls\<rparr> = JArr [JStr s]"
    if e: "emptyValue (js_get data tokenKey)" and f: "findSpecKeys spec [TextSegment] = key # keys" for key keys
  proof -
    from T(3) [OF e] obtain s where s: "js_get data (textKey spec) = JStr s" "toks = JArr [JStr s]"
      by blast
    from textKey_cases [OF s(1)] f have "data key = Some (JStr s)"
      by simp
    then show ?thesis using s(2) by simp
  qed
  ultimately show ?thesis using g by blast
qed

text \<open>
  The theorem at the example: \<^verbatim>\<open>tokens\<close> is empty and gets the text as its one
  token, \<^verbatim>\<open>subwords\<close> is not empty and is passed through.
\<close>

theorem parseInput_tokens_witness:
  "parseInput exampleRecord exampleSpec = Inr exampleAnnotations
   \<and> emptyValue (js_get exampleRecord ''tokens'')
   \<and> map_option tokens (map_of exampleAnnotations ''tokens'') = Some (JArr [JStr ''a b''])
   \<and> \<not> emptyValue (js_get exampleRecord ''subwords'')
   \<and> map_option tokens (map_of exampleAnnotations ''subwords'') = Some (js_get exampleRecord ''subwords'')"
proof -
  have k1: "''tokens'' \<in> set (findSpecKeys exampleSpec [Tokens])"
    and k2: "''subwords'' \<in> set (findSpecKeys exampleSpec [Tokens])"
    by (simp_all add: exampleSpec_keys)
  have e1: "emptyValue (js_get exampleRecord ''tokens'')"
    and e2: "\<not> emptyValue (js_get exampleRecord ''subwords'')"
    by (simp_all add: emptyValue_def js_get_def exampleRecord_def)
  have t: "exampleRecord ''text'' = Some (JStr ''a b'')"
    by (simp add: exampleRecord_def)
  from parseInput_tokens [OF parseInput_example k1] e1 t
  have 1: "map_option tokens (map_of exampleAnnotations ''tokens'') = Some (JArr [JStr ''a b''])"
    by (auto simp: exampleSpec_keys)
  from parseInput_tokens [OF parseInput_example k2] e2
  have 2: "map_option tokens (map_of exampleAnnotations ''subwords'') = Some (js_get exampleRecord ''subwords'')"
    by auto
  from parseInput_example e1 e2 1 2 show ?thesis by simp
qed

text \<open>
  C7. For a tag field of the spec whose value in the record is empty (the empty string
  where a list was expected, or the empty list), the layer that \<^verbatim>\<open>parseInput\<close> builds
  for the field is built without an error and has the empty edge list; and whenever
  \<^verbatim>\<open>parseInput\<close> returns, the result holds that layer, and every layer of that name in
  the result has the empty edge list.
\<close>

theorem parseInput_empty_tag:
  assumes "distinct (map fst spec)"
    and "(tagKey, litType) \<in> set spec"
    and "kind litType \<in> set supportedPredTypes"
    and "emptyValue (js_get data tagKey)"
  shows "annotationLayer data spec tagKey = Inr \<lparr>name = tagKey, edges = JArr []\<rparr>
       \<and> (\<forall>ret. parseInput data spec = Inr ret \<longrightarrow>
            (\<exists>tokenKey g. map_of ret tokenKey = Some g \<and> \<lparr>name = tagKey, edges = JArr []\<rparr> \<in> set (layers g))
          \<and> (\<forall>tokenKey g l. map_of ret tokenKey = Some g \<and> l \<in> set (layers g) \<and> name l = tagKey
                \<longrightarrow> edges l = JArr []))"
proof -
  have sp: "map_of spec tagKey = Some litType"
    using assms(1,2) by simp
  have L: "annotationLayer data spec tagKey = Inr \<lparr>name = tagKey, edges = JArr []\<rparr>"
    using assms(4) sp
    by (simp add: annotationLayer_def emptyValue_def isLitSubtype_def tagsToEdges_def spansToEdges_def Let_def)
  have t: "tagKey \<in> set (findSpecKeys spec supportedPredTypes)"
    using assms(2,3) by (auto simp: findSpecKeys_iff)
  have 1: "\<exists>tokenKey g. map_of ret tokenKey = Some g \<and> \<lparr>name = tagKey, edges = JArr []\<rparr> \<in> set (layers g)"
    if ret: "parseInput data spec = Inr ret" for ret
  proof -
    from parseInput_Inr(3) [OF ret t] obtain k where
      k: "k \<in> set (findSpecKeys spec [Tokens])" and a: "alignKey spec tagKey = Inr k"
      by blast
    from parseInput_Inr(1) [OF ret k] obtain ls toks where
      ls: "pushLayers data spec (filter (\<lambda>t. alignKey spec t = Inr k) (findSpecKeys spec supportedPredTypes)) [] = Inr ls"
      and g: "map_of ret k = Some \<lparr>tokens = toks, layers = ls\<rparr>"
      by blast
    from pushLayers_Inr [OF ls] have
      all: "list_all2 (\<lambda>t l. annotationLayer data spec t = Inr l)
              (filter (\<lambda>t. alignKey spec t = Inr k) (findSpecKeys spec supportedPredTypes)) ls"
      by simp
    have "tagKey \<in> set (filter (\<lambda>t. alignKey spec t = Inr k) (findSpecKeys spec supportedPredTypes))"
      using t a by simp
    from list_all2_left [OF all this] obtain l where "l \<in> set ls" "annotationLayer data spec tagKey = Inr l"
      by blast
    then have "\<lparr>name = tagKey, edges = JArr []\<rparr> \<in> set ls"
      using L by simp
    then show ?thesis using g by force
  qed
  have 2: "edges l = JArr []"
    if ret: "parseInput data spec = Inr ret"
      and g: "map_of ret tokenKey = Some g" and l: "l \<in> set (layers g)" and n: "name l = tagKey"
    for ret tokenKey g l
  proof -
    have tk: "tokenKey \<in> set (findSpecKeys spec [Tokens])"
      using parseInput_Inr(2) [OF ret, of tokenKey] g by auto
    from parseInput_Inr(1) [OF ret tk] g obtain ls' where
      ls': "pushLayers data spec (filter (\<lambda>t. alignKey spec t = Inr tokenKey) (findSpecKeys spec supportedPredTypes)) [] = Inr ls'"
      and lg: "layers g = ls'"
      by auto
    from pushLayers_Inr [OF ls'] lg have "list_all2 (\<lambda>t l. annotationLayer data spec t = Inr l)
        (filter (\<lambda>t. alignKey spec t = Inr tokenKey) (findSpecKeys spec supportedPredTypes)) (layers g)"
      by simp
    from list_all2_right [OF this l] obtain u where "annotationLayer data spec u = Inr l"
      by blast
    then show ?thesis
      using annotationLayer_name [of data spec u l] n L by simp
  qed
  from L 1 2 show ?thesis by blast
qed

text \<open>The theorem at the example, whose \<^verbatim>\<open>ner\<close> field is the empty string.\<close>

theorem parseInput_empty_tag_witness:
  "distinct (map fst exampleSpec)
   \<and> (''ner'', \<lparr>kind = SpanLabels, align = Some ''tokens''\<rparr>) \<in> set exampleSpec
   \<and> js_get exampleRecord ''ner'' = JStr []
   \<and> emptyValue (js_get exampleRecord ''ner'')
   \<and> annotationLayer exampleRecord exampleSpec ''ner'' = Inr \<lparr>name = ''ner'', edges = JArr []\<rparr>
   \<and> parseInput exampleRecord exampleSpec = Inr exampleAnnotations
   \<and> (\<exists>tokenKey g. map_of exampleAnnotations tokenKey = Some g \<and> \<lparr>name = ''ner'', edges = JArr []\<rparr> \<in> set (layers g))"
proof -
  have d: "distinct (map fst exampleSpec)"
    and m: "(''ner'', \<lparr>kind = SpanLabels, align = Some ''tokens''\<rparr>) \<in> set exampleSpec"
    by (simp_all add: exampleSpec_def)
  have s: "kind \<lparr>kind = SpanLabels, align = Some ''tokens''\<rparr> \<in> set supportedPredTypes"
    by (simp add: supportedPredTypes_def)
  have v: "js_get exampleRecord ''ner'' = JStr []"
    by (simp add: js_get_def exampleRecord_def)
  then have e: "emptyValue (js_get exampleRecord ''ner'')"
    by (simp add: emptyValue_def)
  from parseInput_empty_tag [OF d m s e] parseInput_example d m v e show ?thesis
    by blast
qed

text \<open>
  C10, as the code has it. \<^verbatim>\<open>parseInput\<close> returns a result only if every token field
  and every tag field of the spec has in the record a value whose length can be read
  (any value but \<^verbatim>\<open>undefined\<close> and \<^verbatim>\<open>null\<close>, which is also what an absent field
  reads as), and, whenever the value of a token field is empty, the record holds a string
  for the first TextSegment field of the spec or, when the spec has no TextSegment field,
  under the key \<^verbatim>\<open>"undefined"\<close>, which is the key that \<^verbatim>\<open>data[undefined]\<close> reads.
  When the value of a token field is empty, the spec has no TextSegment field and the
  record has nothing under \<^verbatim>\<open>"undefined"\<close>, \<^verbatim>\<open>parseInput\<close> fails.
\<close>

theorem parseInput_total_only_if:
  "(\<forall>ret. parseInput data spec = Inr ret \<longrightarrow>
       (\<forall>k\<in>set (findSpecKeys spec [Tokens]). \<exists>v. data k = Some v \<and> v \<noteq> JUndefined \<and> v \<noteq> JNull)
     \<and> (\<forall>t\<in>set (findSpecKeys spec supportedPredTypes). \<exists>v. data t = Some v \<and> v \<noteq> JUndefined \<and> v \<noteq> JNull)
     \<and> (\<forall>k\<in>set (findSpecKeys spec [Tokens]). emptyValue (js_get data k) \<longrightarrow>
           (\<exists>key keys s. findSpecKeys spec [TextSegment] = key # keys \<and> data key = Some (JStr s))
         \<or> (findSpecKeys spec [TextSegment] = [] \<and> (\<exists>s. data ''undefined'' = Some (JStr s)))))
 \<and> (tokenKey \<in> set (findSpecKeys spec [Tokens]) \<and> emptyValue (js_get data tokenKey)
      \<and> findSpecKeys spec [TextSegment] = [] \<and> data ''undefined'' = None
    \<longrightarrow> (\<exists>e. parseInput data spec = Inl e))"
proof -
  have tok: "\<exists>v. data k = Some v \<and> v \<noteq> JUndefined \<and> v \<noteq> JNull"
    if "parseInput data spec = Inr ret" "k \<in> set (findSpecKeys spec [Tokens])" for ret k
  proof -
    from parseInput_Inr(1) [OF that] obtain toks where "inferTokens data spec k = Inr toks"
      by blast
    from inferTokens_Inr(1) [OF this] have "js_get data k \<noteq> JUndefined \<and> js_get data k \<noteq> JNull"
      using js_length_Inr by blast
    then show ?thesis by (rule js_get_present)
  qed
  have tag: "\<exists>v. data t = Some v \<and> v \<noteq> JUndefined \<and> v \<noteq> JNull"
    if ret: "parseInput data spec = Inr ret" and t: "t \<in> set (findSpecKeys spec supportedPredTypes)" for ret t
  proof -
    from parseInput_Inr(3) [OF ret t] obtain k where
      k: "k \<in> set (findSpecKeys spec [Tokens])" and a: "alignKey spec t = Inr k"
      by blast
    from parseInput_Inr(1) [OF ret k] obtain ls where
      "pushLayers data spec (filter (\<lambda>t. alignKey spec t = Inr k) (findSpecKeys spec supportedPredTypes)) [] = Inr ls"
      by blast
    from pushLayers_Inr [OF this] have
      all: "list_all2 (\<lambda>t l. annotationLayer data spec t = Inr l)
              (filter (\<lambda>t. alignKey spec t = Inr k) (findSpecKeys spec supportedPredTypes)) ls"
      by simp
    have mem: "t \<in> set (filter (\<lambda>t. alignKey spec t = Inr k) (findSpecKeys spec supportedPredTypes))"
      using t a by simp
    from list_all2_left [OF all mem] obtain l where "annotationLayer data spec t = Inr l"
      by blast
    from annotationLayer_length [OF this] have "js_get data t \<noteq> JUndefined \<and> js_get data t \<noteq> JNull"
      using js_length_Inr by blast
    then show ?thesis by (rule js_get_present)
  qed
  have fallback: "(\<exists>key keys s. findSpecKeys spec [TextSegment] = key # keys \<and> data key = Some (JStr s))
         \<or> (findSpecKeys spec [TextSegment] = [] \<and> (\<exists>s. data ''undefined'' = Some (JStr s)))"
    if "parseInput data spec = Inr ret" "k \<in> set (findSpecKeys spec [Tokens])" "emptyValue (js_get data k)" for ret k
  proof -
    from parseInput_Inr(1) [OF that(1,2)] obtain toks where "inferTokens data spec k = Inr toks"
      by blast
    from inferTokens_Inr(3) [OF this that(3)] obtain s where "js_get data (textKey spec) = JStr s"
      by blast
    from textKey_cases [OF this] show ?thesis by blast
  qed
  have fails: "\<exists>e. parseInput data spec = Inl e"
    if "tokenKey \<in> set (findSpecKeys spec [Tokens])" "emptyValue (js_get data tokenKey)"
       "findSpecKeys spec [TextSegment] = []" "data ''undefined'' = None"
  proof (cases "parseInput data spec")
    case (Inl e)
    then show ?thesis by blast
  next
    case (Inr ret)
    from fallback [OF Inr that(1,2)] that(3,4) show ?thesis by simp
  qed
  from tok tag fallback fails show ?thesis by blast
qed

text \<open>
  The theorem at the example, where \<^verbatim>\<open>parseInput\<close> returns, and at a record with an
  empty token field under a spec with no TextSegment field, where it fails.
\<close>

theorem parseInput_total_only_if_witness:
  "parseInput exampleRecord exampleSpec = Inr exampleAnnotations
   \<and> (\<exists>v. exampleRecord ''tokens'' = Some v \<and> v \<noteq> JUndefined \<and> v \<noteq> JNull)
   \<and> (\<exists>v. exampleRecord ''pos'' = Some v \<and> v \<noteq> JUndefined \<and> v \<noteq> JNull)
   \<and> ''tokens'' \<in> set (findSpecKeys tokensOnlySpec [Tokens])
   \<and> emptyValue (js_get [''tokens'' \<mapsto> JArr []] ''tokens'')
   \<and> findSpecKeys tokensOnlySpec [TextSegment] = []
   \<and> (\<exists>e. parseInput [''tokens'' \<mapsto> JArr []] tokensOnlySpec = Inl e)"
proof -
  have k: "''tokens'' \<in> set (findSpecKeys exampleSpec [Tokens])"
    and t: "''pos'' \<in> set (findSpecKeys exampleSpec supportedPredTypes)"
    by (simp_all add: exampleSpec_keys)
  from parseInput_total_only_if [of exampleRecord exampleSpec] parseInput_example k t
  have 1: "(\<exists>v. exampleRecord ''tokens'' = Some v \<and> v \<noteq> JUndefined \<and> v \<noteq> JNull)
         \<and> (\<exists>v. exampleRecord ''pos'' = Some v \<and> v \<noteq> JUndefined \<and> v \<noteq> JNull)"
    by blast
  have k': "''tokens'' \<in> set (findSpecKeys tokensOnlySpec [Tokens])"
    and f: "findSpecKeys tokensOnlySpec [TextSegment] = []"
    by (simp_all add: tokensOnlySpec_def findSpecKeys_def isLitSubtype_def)
  have e: "emptyValue (js_get [''tokens'' \<mapsto> JArr []] ''tokens'')"
    and u: "[''tokens'' \<mapsto> JArr []] ''undefined'' = None"
    by (simp_all add: emptyValue_def js_get_def)
  from parseInput_total_only_if [of "[''tokens'' \<mapsto> JArr []]" tokensOnlySpec "''tokens''"] k' e f u
  have 2: "\<exists>e. parseInput [''tokens'' \<mapsto> JArr []] tokensOnlySpec = Inl e"
    by blast
  from parseInput_example 1 k' e f 2 show ?thesis by blast
qed

text \<open>
  The claim as stated has the fallback always fail when the spec has no TextSegment field.
  It does not when the record has a string under the key \<^verbatim>\<open>"undefined"\<close>: the token
  field is empty, the spec has no TextSegment field, and \<^verbatim>\<open>parseInput\<close> returns.
\<close>

theorem parseInput_total_counterexample:
  "findSpecKeys tokensOnlySpec [TextSegment] = []
   \<and> emptyValue (js_get [''undefined'' \<mapsto> JStr ''hello'', ''tokens'' \<mapsto> JArr []] ''tokens'')
   \<and> parseInput [''undefined'' \<mapsto> JStr ''hello'', ''tokens'' \<mapsto> JArr []] tokensOnlySpec
       = Inr [(''tokens'', \<lparr>tokens = JArr [JStr ''hello''], layers = []\<rparr>)]"
  by (simp add: parseInput_def mapTokenToTags_def tokensOnlySpec_def findSpecKeys_def isLitSubtype_def
        supportedPredTypes_def inferTokens_def js_get_def textKey_def emptyValue_def)

text \<open>
  C9. \<^verbatim>\<open>shouldDisplayModule\<close> of the gold module is true if and only if the dataset
  spec has a field of kind Tokens and a field of one of the supported prediction kinds;
  so it is false for a spec with no field of a supported prediction kind, whatever its
  token fields.
\<close>

theorem shouldDisplayModule_iff:
  "(shouldDisplayModule modelSpecs spec \<longleftrightarrow>
      (\<exists>key litType. (key, litType) \<in> set spec \<and> kind litType = Tokens)
    \<and> (\<exists>key litType. (key, litType) \<in> set spec \<and> kind litType \<in> {SequenceTags, SpanLabels, EdgeLabels}))
 \<and> ((\<forall>key litType. (key, litType) \<in> set spec \<longrightarrow> kind litType \<notin> {SequenceTags, SpanLabels, EdgeLabels})
      \<longrightarrow> \<not> shouldDisplayModule modelSpecs spec)"
proof -
  have "length (findSpecKeys spec types) > 0 \<longleftrightarrow> (\<exists>key. key \<in> set (findSpecKeys spec types))" for types
    by (cases "findSpecKeys spec types") auto
  then have "shouldDisplayModule modelSpecs spec \<longleftrightarrow>
      (\<exists>key litType. (key, litType) \<in> set spec \<and> kind litType = Tokens)
    \<and> (\<exists>key litType. (key, litType) \<in> set spec \<and> kind litType \<in> {SequenceTags, SpanLabels, EdgeLabels})"
    by (simp add: shouldDisplayModule_def findSpecKeys_iff supportedPredTypes_def)
  then show ?thesis by blast
qed

text \<open>
  The theorem at a spec with a Tokens field and no prediction field, and at the example
  spec, which has both.
\<close>

theorem shouldDisplayModule_iff_witness:
  "\<not> shouldDisplayModule () tokensOnlySpec \<and> shouldDisplayModule () exampleSpec"
proof -
  have 1: "\<forall>key litType. (key, litType) \<in> set tokensOnlySpec \<longrightarrow> kind litType \<notin> {SequenceTags, SpanLabels, EdgeLabels}"
    by (simp add: tokensOnlySpec_def)
  have 2: "(''tokens'', \<lparr>kind = Tokens, align = None\<rparr>) \<in> set exampleSpec"
    and 3: "(''pos'', \<lparr>kind = SequenceTags, align = Some ''subwords''\<rparr>) \<in> set exampleSpec"
    by (simp_all add: exampleSpec_def)
  have "\<not> shouldDisplayModule () tokensOnlySpec"
    using shouldDisplayModule_iff [of "()" tokensOnlySpec] 1 by blast
  moreover have "shouldDisplayModule () exampleSpec"
    using shouldDisplayModule_iff [of "()" exampleSpec] 2 3 by force
  ultimately show ?thesis by simp
qed

section \<open>Properties of the writes of the normaliser\<close>

lemma seedTokens_st_eq:
  "t < length h \<Longrightarrow> h ! t = MultimapCell m \<Longrightarrow>
   seedTokens_st t ks h = h[t := MultimapCell (fold (\<lambda>tokenKey m. AList.update tokenKey [] m) ks m)]"
proof (induction ks arbitrary: h m)
  case Nil
  then have "h[t := MultimapCell m] = h"
    by (simp add: list_update_same_conv)
  then show ?case by simp
next
  case (Cons k ks)
  let ?h = "h[t := MultimapCell (AList.update k [] m)]"
  have "multimapAt h t = m"
    using Cons.prems by (simp add: multimapAt_def)
  moreover have "seedTokens_st t ks ?h = ?h[t := MultimapCell (fold (\<lambda>tokenKey m. AList.update tokenKey [] m) ks (AList.update k [] m))]"
    by (rule Cons.IH) (use Cons.prems in simp_all)
  ultimately show ?case by simp
qed

lemma pushTags_st_eq:
  assumes "t < length h" "h ! t = MultimapCell m" "s < length h" "s \<noteq> t" "h ! s = SpecCell spec"
  shows "\<exists>mm. pushTags_st s t tks h = (map_sum (\<lambda>e. e) (\<lambda>x. ()) (pushTags spec tks m), h[t := MultimapCell mm])
             \<and> (\<forall>m'. pushTags spec tks m = Inr m' \<longrightarrow> mm = m')"
  using assms
proof (induction tks arbitrary: h m)
  case Nil
  then have "h[t := MultimapCell m] = h"
    by (simp add: list_update_same_conv)
  then show ?case by (intro exI [of _ m]) simp
next
  case (Cons u tks)
  have sp: "specAt h s = spec" and mm: "multimapAt h t = m"
    using Cons.prems by (simp_all add: specAt_def multimapAt_def)
  have same: "h[t := MultimapCell m] = h"
    using Cons.prems by (simp add: list_update_same_conv)
  show ?case
  proof (cases "alignKey spec u")
    case (Inl e)
    then show ?thesis using sp same by (intro exI [of _ m]) simp
  next
    case (Inr k)
    show ?thesis
    proof (cases "map_of m k")
      case None
      then show ?thesis using Inr sp mm same by (intro exI [of _ m]) simp
    next
      case (Some tags)
      let ?m1 = "AList.update k (tags @ [u]) m"
      let ?h = "h[t := MultimapCell ?m1]"
      have "\<exists>mm. pushTags_st s t tks ?h = (map_sum (\<lambda>e. e) (\<lambda>x. ()) (pushTags spec tks ?m1), ?h[t := MultimapCell mm])
             \<and> (\<forall>m'. pushTags spec tks ?m1 = Inr m' \<longrightarrow> mm = m')"
        by (rule Cons.IH) (use Cons.prems in simp_all)
      then obtain mm' where "pushTags_st s t tks ?h = (map_sum (\<lambda>e. e) (\<lambda>x. ()) (pushTags spec tks ?m1), h[t := MultimapCell mm'])"
        and "\<forall>m'. pushTags spec tks ?m1 = Inr m' \<longrightarrow> mm' = m'"
        by auto
      then show ?thesis using Inr Some sp mm by (intro exI [of _ mm']) simp
    qed
  qed
qed

lemma mapTokenToTags_st_eq:
  assumes "s < length h" "h ! s = SpecCell spec"
  shows "\<exists>mm. mapTokenToTags_st s h = (map_sum (\<lambda>e. e) (\<lambda>x. length h) (mapTokenToTags spec), h @ [MultimapCell mm])
             \<and> (\<forall>m'. mapTokenToTags spec = Inr m' \<longrightarrow> mm = m')"
proof -
  let ?seed = "fold (\<lambda>tokenKey m. AList.update tokenKey [] m) (findSpecKeys spec [Tokens]) []"
  let ?h1 = "h @ [MultimapCell []]"
  let ?t = "length h"
  have sp: "specAt h s = spec"
    using assms by (simp add: specAt_def)
  have seed: "seedTokens_st ?t (findSpecKeys spec [Tokens]) ?h1 = h @ [MultimapCell ?seed]"
    using seedTokens_st_eq [of ?t ?h1 "[]" "findSpecKeys spec [Tokens]"] by simp
  have "\<exists>mm. pushTags_st s ?t (findSpecKeys spec supportedPredTypes) (h @ [MultimapCell ?seed]) =
            (map_sum (\<lambda>e. e) (\<lambda>x. ()) (pushTags spec (findSpecKeys spec supportedPredTypes) ?seed),
             (h @ [MultimapCell ?seed])[?t := MultimapCell mm])
          \<and> (\<forall>m'. pushTags spec (findSpecKeys spec supportedPredTypes) ?seed = Inr m' \<longrightarrow> mm = m')"
    by (rule pushTags_st_eq) (use assms in \<open>simp_all add: nth_append\<close>)
  then obtain mm where
    p: "pushTags_st s ?t (findSpecKeys spec supportedPredTypes) (h @ [MultimapCell ?seed]) =
            (map_sum (\<lambda>e. e) (\<lambda>x. ()) (pushTags spec (findSpecKeys spec supportedPredTypes) ?seed), h @ [MultimapCell mm])"
    and q: "\<forall>m'. pushTags spec (findSpecKeys spec supportedPredTypes) ?seed = Inr m' \<longrightarrow> mm = m'"
    by auto
  have "mapTokenToTags_st s h = (map_sum (\<lambda>e. e) (\<lambda>x. length h) (mapTokenToTags spec), h @ [MultimapCell mm])"
    using sp seed p
    by (cases "pushTags spec (findSpecKeys spec supportedPredTypes) ?seed")
       (simp_all add: mapTokenToTags_st_def mapTokenToTags_def alloc_def)
  moreover have "\<forall>m'. mapTokenToTags spec = Inr m' \<longrightarrow> mm = m'"
    using q by (simp add: mapTokenToTags_def)
  ultimately show ?thesis by blast
qed

lemma pushLayers_st_eq:
  assumes "a < length h" "h ! a = LayersCell acc" "d < length h" "d \<noteq> a" "h ! d = InputCell data"
    "s < length h" "s \<noteq> a" "h ! s = SpecCell spec"
  shows "\<exists>ls. pushLayers_st d s a tks h = (map_sum (\<lambda>e. e) (\<lambda>x. ()) (pushLayers data spec tks acc), h[a := LayersCell ls])
             \<and> (\<forall>ls'. pushLayers data spec tks acc = Inr ls' \<longrightarrow> ls = ls')"
  using assms
proof (induction tks arbitrary: h acc)
  case Nil
  then have "h[a := LayersCell acc] = h"
    by (simp add: list_update_same_conv)
  then show ?case by (intro exI [of _ acc]) simp
next
  case (Cons u tks)
  have rd: "inputAt h d = data" "specAt h s = spec" "layersAt h a = acc"
    using Cons.prems by (simp_all add: inputAt_def specAt_def layersAt_def)
  have same: "h[a := LayersCell acc] = h"
    using Cons.prems by (simp add: list_update_same_conv)
  show ?case
  proof (cases "annotationLayer data spec u")
    case (Inl e)
    then show ?thesis using rd same by (intro exI [of _ acc]) simp
  next
    case (Inr l)
    let ?h = "h[a := LayersCell (acc @ [l])]"
    have "\<exists>ls. pushLayers_st d s a tks ?h = (map_sum (\<lambda>e. e) (\<lambda>x. ()) (pushLayers data spec tks (acc @ [l])), ?h[a := LayersCell ls])
             \<and> (\<forall>ls'. pushLayers data spec tks (acc @ [l]) = Inr ls' \<longrightarrow> ls = ls')"
      by (rule Cons.IH) (use Cons.prems in simp_all)
    then obtain ls where "pushLayers_st d s a tks ?h = (map_sum (\<lambda>e. e) (\<lambda>x. ()) (pushLayers data spec tks (acc @ [l])), h[a := LayersCell ls])"
      and "\<forall>ls'. pushLayers data spec tks (acc @ [l]) = Inr ls' \<longrightarrow> ls = ls'"
      by auto
    then show ?thesis using Inr rd by (intro exI [of _ ls]) simp
  qed
qed

lemma parseGroups_st_eq:
  assumes "d < length h" "s < length h" "t < length h" "r < length h" "r \<noteq> d" "r \<noteq> s" "r \<noteq> t"
    "h ! d = InputCell data" "h ! s = SpecCell spec" "h ! t = MultimapCell m" "h ! r = AnnotationsCell ret"
  shows "\<exists>ret' new. parseGroups_st d s t r ks h =
            (map_sum (\<lambda>e. e) (\<lambda>x. ()) (parseGroups data spec m ks ret), h[r := AnnotationsCell ret'] @ new)
          \<and> (\<forall>x. parseGroups data spec m ks ret = Inr x \<longrightarrow> ret' = x)"
  using assms
proof (induction ks arbitrary: h ret)
  case Nil
  then have "h[r := AnnotationsCell ret] @ [] = h"
    by (simp add: list_update_same_conv)
  then show ?case by (intro exI [of _ ret] exI [of _ "[]"]) simp
next
  case (Cons k ks)
  let ?a = "length h"
  let ?h1 = "h @ [LayersCell []]"
  have same: "h[r := AnnotationsCell ret] = h"
    using Cons.prems by (simp add: list_update_same_conv)
  have m1: "multimapAt ?h1 t = m"
    using Cons.prems by (simp add: multimapAt_def nth_append)
  show ?case
  proof (cases "map_of m k")
    case None
    then show ?thesis
      using m1 same by (intro exI [of _ ret] exI [of _ "[LayersCell []]"]) (simp add: alloc_def)
  next
    case (Some tagKeys)
    have "\<exists>ls. pushLayers_st d s ?a tagKeys ?h1 =
              (map_sum (\<lambda>e. e) (\<lambda>x. ()) (pushLayers data spec tagKeys []), ?h1[?a := LayersCell ls])
            \<and> (\<forall>ls'. pushLayers data spec tagKeys [] = Inr ls' \<longrightarrow> ls = ls')"
      by (rule pushLayers_st_eq) (use Cons.prems in \<open>simp_all add: nth_append\<close>)
    then obtain ls where
      pl: "pushLayers_st d s ?a tagKeys ?h1 =
              (map_sum (\<lambda>e. e) (\<lambda>x. ()) (pushLayers data spec tagKeys []), h @ [LayersCell ls])"
      and ls: "\<forall>ls'. pushLayers data spec tagKeys [] = Inr ls' \<longrightarrow> ls = ls'"
      by auto
    let ?h2 = "h @ [LayersCell ls]"
    have rd: "inputAt ?h2 d = data" "specAt ?h2 s = spec" "layersAt ?h2 ?a = ls" "annotationsAt ?h2 r = ret"
      using Cons.prems by (simp_all add: inputAt_def specAt_def layersAt_def annotationsAt_def nth_append)
    show ?thesis
    proof (cases "pushLayers data spec tagKeys []")
      case (Inl e)
      then show ?thesis
        using m1 Some pl same by (intro exI [of _ ret] exI [of _ "[LayersCell ls]"]) (simp add: alloc_def)
    next
      case (Inr ls')
      then have eq: "ls' = ls" using ls by simp
      show ?thesis
      proof (cases "inferTokens data spec k")
        case (Inl e)
        then show ?thesis
          using m1 Some pl Inr rd same
          by (intro exI [of _ ret] exI [of _ "[LayersCell ls]"]) (simp add: alloc_def)
      next
        case toks: (Inr toks)
        let ?ret1 = "AList.update k \<lparr>tokens = toks, layers = ls\<rparr> ret"
        let ?h3 = "h[r := AnnotationsCell ?ret1] @ [LayersCell ls]"
        have h3: "?h2[r := AnnotationsCell ?ret1] = ?h3"
          using Cons.prems by (simp add: list_update_append1)
        have "\<exists>ret' new. parseGroups_st d s t r ks ?h3 =
            (map_sum (\<lambda>e. e) (\<lambda>x. ()) (parseGroups data spec m ks ?ret1), ?h3[r := AnnotationsCell ret'] @ new)
          \<and> (\<forall>x. parseGroups data spec m ks ?ret1 = Inr x \<longrightarrow> ret' = x)"
          by (rule Cons.IH) (use Cons.prems in \<open>simp_all add: nth_append\<close>)
        then obtain ret' new where
          rec: "parseGroups_st d s t r ks ?h3 =
            (map_sum (\<lambda>e. e) (\<lambda>x. ()) (parseGroups data spec m ks ?ret1),
             h[r := AnnotationsCell ret'] @ ([LayersCell ls] @ new))"
          and r': "\<forall>x. parseGroups data spec m ks ?ret1 = Inr x \<longrightarrow> ret' = x"
          using Cons.prems by (auto simp: list_update_append1)
        show ?thesis
          using m1 Some pl Inr eq toks rd h3 rec r'
          by (intro exI [of _ ret'] exI [of _ "[LayersCell ls] @ new"]) (simp add: alloc_def)
      qed
    qed
  qed
qed

lemma parseInput_st_eq:
  assumes "d < length h" "s < length h" "h ! d = InputCell data" "h ! s = SpecCell spec"
  shows "\<exists>new. snd (parseInput_st d s h) = h @ new"
    and "outputOf (parseInput_st d s h) = parseInput data spec"
proof -
  from mapTokenToTags_st_eq [OF assms(2,4)] obtain mm where
    mt: "mapTokenToTags_st s h = (map_sum (\<lambda>e. e) (\<lambda>x. length h) (mapTokenToTags spec), h @ [MultimapCell mm])"
    and mm: "\<forall>m'. mapTokenToTags spec = Inr m' \<longrightarrow> mm = m'"
    by blast
  have "(\<exists>new. snd (parseInput_st d s h) = h @ new) \<and> outputOf (parseInput_st d s h) = parseInput data spec"
  proof (cases "mapTokenToTags spec")
    case (Inl e)
    then show ?thesis
      using mt by (simp add: parseInput_st_def parseInput_def outputOf_def)
  next
    case (Inr m)
    then have m: "mm = m" using mm by simp
    let ?t = "length h"
    let ?r = "Suc (length h)"
    let ?h2 = "h @ [MultimapCell m, AnnotationsCell []]"
    have "\<exists>ret' new. parseGroups_st d s ?t ?r (map fst m) ?h2 =
            (map_sum (\<lambda>e. e) (\<lambda>x. ()) (parseGroups data spec m (map fst m) []), ?h2[?r := AnnotationsCell ret'] @ new)
          \<and> (\<forall>x. parseGroups data spec m (map fst m) [] = Inr x \<longrightarrow> ret' = x)"
      by (rule parseGroups_st_eq) (use assms in \<open>auto simp: nth_append\<close>)
    then obtain ret' new where
      pg: "parseGroups_st d s ?t ?r (map fst m) ?h2 =
            (map_sum (\<lambda>e. e) (\<lambda>x. ()) (parseGroups data spec m (map fst m) []),
             h @ [MultimapCell m, AnnotationsCell ret'] @ new)"
      and r': "\<forall>x. parseGroups data spec m (map fst m) [] = Inr x \<longrightarrow> ret' = x"
      by (auto simp: list_update_append)
    have t: "multimapAt ?h2 ?t = m"
      by (simp add: multimapAt_def nth_append)
    have out: "annotationsAt (h @ [MultimapCell m, AnnotationsCell ret'] @ new) ?r = ret'"
      by (simp add: annotationsAt_def nth_append)
    show ?thesis
      using mt Inr m pg r' t out
      by (cases "parseGroups data spec m (map fst m) []")
         (simp_all add: parseInput_st_def parseInput_def outputOf_def alloc_def)
  qed
  then show "\<exists>new. snd (parseInput_st d s h) = h @ new"
    and "outputOf (parseInput_st d s h) = parseInput data spec"
    by simp_all
qed

text \<open>
  C8. \<^verbatim>\<open>parseInput\<close> has no side effect and is deterministic. Called on a record and
  a spec held in a store, it leaves every object that was in the store as it was (the
  record, the spec and whatever else the caller owns): all it writes are objects it has
  allocated itself. What it returns or throws is determined by the structure of the
  record and of the spec: a call on a structurally identical record and spec, in any store
  and at any addresses, has a structurally identical outcome, and so has the same call
  made a second time, in the store that the first call left.
\<close>

theorem parseInput_pure:
  assumes "d < length h" "s < length h" "h ! d = InputCell data" "h ! s = SpecCell spec"
    and "d' < length h'" "s' < length h'" "h' ! d' = InputCell data" "h' ! s' = SpecCell spec"
  shows "(\<exists>new. snd (parseInput_st d s h) = h @ new)
       \<and> outputOf (parseInput_st d' s' h') = outputOf (parseInput_st d s h)
       \<and> outputOf (parseInput_st d s (snd (parseInput_st d s h))) = outputOf (parseInput_st d s h)"
proof -
  from parseInput_st_eq(1) [OF assms(1-4)] obtain new where new: "snd (parseInput_st d s h) = h @ new"
    by blast
  have 1: "outputOf (parseInput_st d s h) = parseInput data spec"
    by (rule parseInput_st_eq(2) [OF assms(1-4)])
  have 2: "outputOf (parseInput_st d' s' h') = parseInput data spec"
    by (rule parseInput_st_eq(2) [OF assms(5-8)])
  have "outputOf (parseInput_st d s (h @ new)) = parseInput data spec"
    by (rule parseInput_st_eq(2)) (use assms(1-4) in \<open>simp_all add: nth_append\<close>)
  then show ?thesis using new 1 2 by simp
qed

text \<open>
  The theorem at the example, with the record and the spec at addresses 0 and 1 of one
  store and at addresses 2 and 0 of another; the call returns the annotations of the
  example.
\<close>

theorem parseInput_pure_witness:
  "(\<exists>new. snd (parseInput_st 0 1 [InputCell exampleRecord, SpecCell exampleSpec]) =
            [InputCell exampleRecord, SpecCell exampleSpec] @ new)
   \<and> outputOf (parseInput_st 2 0 [SpecCell exampleSpec, AnnotationsCell [], InputCell exampleRecord]) =
       outputOf (parseInput_st 0 1 [InputCell exampleRecord, SpecCell exampleSpec])
   \<and> outputOf (parseInput_st 0 1 (snd (parseInput_st 0 1 [InputCell exampleRecord, SpecCell exampleSpec]))) =
       outputOf (parseInput_st 0 1 [InputCell exampleRecord, SpecCell exampleSpec])
   \<and> outputOf (parseInput_st 0 1 [InputCell exampleRecord, SpecCell exampleSpec]) = Inr exampleAnnotations"
proof -
  have "outputOf (parseInput_st 0 1 [InputCell exampleRecord, SpecCell exampleSpec]) = Inr exampleAnnotations"
    using parseInput_st_eq(2) [of 0 "[InputCell exampleRecord, SpecCell exampleSpec]" 1 exampleRecord exampleSpec]
    by (simp add: parseInput_example)
  then show ?thesis
    using parseInput_pure [of 0 "[InputCell exampleRecord, SpecCell exampleSpec]" 1 exampleRecord exampleSpec
        2 "[SpecCell exampleSpec, AnnotationsCell [], InputCell exampleRecord]" 0]
    by simp
qed

section \<open>Properties of the loading coordinator\<close>

lemma committed_append:
  "committed key (xs @ ys) = committed key xs @ committed key ys"
  by (induction key xs rule: committed.induct) auto

lemma step_other_key:
  "keyOf e \<noteq> key \<Longrightarrow> keyView key (step e s) = keyView key s"
  by (cases e; cases s)
     (auto simp: keyView_def loadLatest_call_def loadLatest_resume_def setIsLoading_def committed_append
           split: settled.splits)

lemma step_same_view:
  "keyView key s = keyView key s' \<Longrightarrow> keyView key (step e s) = keyView key (step e s')"
  by (cases e; cases s; cases s')
     (auto simp: keyView_def loadLatest_call_def loadLatest_resume_def setIsLoading_def committed_append
           split: settled.splits)

lemma fold_step_filter:
  "keyView key s = keyView key s' \<Longrightarrow>
   keyView key (fold step es s) = keyView key (fold step (filter (\<lambda>e. keyOf e = key) es) s')"
proof (induction es arbitrary: s s')
  case Nil
  then show ?case by simp
next
  case (Cons e es)
  show ?case
  proof (cases "keyOf e = key")
    case True
    have "keyView key (step e s) = keyView key (step e s')"
      using Cons.prems by (rule step_same_view)
    from Cons.IH [OF this] True show ?thesis by simp
  next
    case False
    have "keyView key (step e s) = keyView key s'"
      using step_other_key [OF False, of s] Cons.prems by simp
    from Cons.IH [OF this] False show ?thesis by simp
  qed
qed

lemma race_A_first:
  "pA \<noteq> pB \<Longrightarrow>
   keyView key (fold step [Call key pA, Call key pB, Resume key pA oA, Resume key pB oB] (m, [])) =
     (case oB of Fulfilled rB \<Rightarrow> (None, [(pB, rB)]) | Rejected reason \<Rightarrow> (Some pB, []))"
  by (auto simp: keyView_def loadLatest_call_def loadLatest_resume_def setIsLoading_def
           split: settled.splits)

lemma race_B_first:
  "pA \<noteq> pB \<Longrightarrow>
   keyView key (fold step [Call key pA, Call key pB, Resume key pB oB, Resume key pA oA] (m, [])) =
     (case oB of Fulfilled rB \<Rightarrow> (None, [(pB, rB)]) | Rejected reason \<Rightarrow> (Some pB, []))"
  by (auto simp: keyView_def loadLatest_call_def loadLatest_resume_def setIsLoading_def
           split: settled.splits)

lemma shuffles_two:
  "shuffles [a, b] [c, d] = {[a,b,c,d],[a,c,b,d],[a,c,d,b],[c,a,b,d],[c,a,d,b],[c,d,a,b]}"
  by (simp add: insert_commute)

lemma visible_race:
  assumes "ms \<in> shuffles [Settle (length (getPredsCalls m)) oA, Continue (length (getPredsCalls m))]
                          [Settle (Suc (length (getPredsCalls m))) oB, Continue (Suc (length (getPredsCalls m)))]"
  shows "set (visible ([Select (Some a), Select (Some b)] @ ms) (m, Map.empty)) \<subseteq> {predDisplayData m, shownAfter oB m}
       \<and> last (visible ([Select (Some a), Select (Some b)] @ ms) (m, Map.empty)) = shownAfter oB m"
  using assms unfolding shuffles_two
  by (cases oA; cases oB)
     (auto simp: updatePredDisplayData_call_def getPreds_def loadLatest_call_def loadLatest_resume_def
        setIsLoading_def updatePredDisplayData_resume_def shownAfter_def split: sum.splits)

lemma parseFirst_example:
  "parseFirst resultA tokensOnlySpec = Inr shownA"
  "parseFirst resultB tokensOnlySpec = Inr shownB"
  by (simp_all add: resultA_def resultB_def shownA_def shownB_def
        parseFirst_def parseInput_def mapTokenToTags_def tokensOnlySpec_def findSpecKeys_def
        isLitSubtype_def supportedPredTypes_def inferTokens_def js_get_def)

lemma shownAfter_example:
  "shownAfter (Fulfilled resultA) exampleModule = shownA"
  "shownAfter (Fulfilled resultB) exampleModule = shownB"
  by (simp_all add: shownAfter_def exampleModule_def parseFirst_example)

text \<open>
  C1, as the code has it. Last issued wins among operations that are in flight together.
  Two operations A and B are passed to \<^verbatim>\<open>loadLatest\<close> under the same key, A first, and
  B is issued before A completes. Then, whatever else the module runs under other keys and
  in whichever order A and B complete, the only result ever returned other than
  \<^verbatim>\<open>null\<close> under that key is B's (none when B rejects); A's call returns
  \<^verbatim>\<open>null\<close> or A's rejection, also when A completes after B's result was committed.
  So it is for the visible state of the module of model predictions: after two selections
  in a row, in every interleaving of the resumptions of the two \<^verbatim>\<open>loadLatest\<close> calls
  and of the two \<^verbatim>\<open>updatePredDisplayData\<close> calls, \<^verbatim>\<open>predDisplayData\<close> is at every
  moment what it was before or what B's outcome gives, and is the latter in the end.
\<close>

theorem last_issued_wins:
  assumes "pA \<noteq> pB"
    and "filter (\<lambda>e. keyOf e = key) es = [Call key pA, Call key pB, Resume key pA oA, Resume key pB oB]
       \<or> filter (\<lambda>e. keyOf e = key) es = [Call key pA, Call key pB, Resume key pB oB, Resume key pA oA]"
    and "ms \<in> shuffles [Settle (length (getPredsCalls sm)) sA, Continue (length (getPredsCalls sm))]
                          [Settle (Suc (length (getPredsCalls sm))) sB, Continue (Suc (length (getPredsCalls sm)))]"
  shows "committed key (snd (run es m)) = (case oB of Fulfilled rB \<Rightarrow> [(pB, rB)] | Rejected reason \<Rightarrow> [])
       \<and> set (visible ([Select (Some a), Select (Some b)] @ ms) (sm, Map.empty)) \<subseteq> {predDisplayData sm, shownAfter sB sm}
       \<and> last (visible ([Select (Some a), Select (Some b)] @ ms) (sm, Map.empty)) = shownAfter sB sm"
proof -
  have "keyView key (run es m) = keyView key (fold step (filter (\<lambda>e. keyOf e = key) es) (m, []))"
    unfolding run_def by (rule fold_step_filter) simp
  also have "\<dots> = (case oB of Fulfilled rB \<Rightarrow> (None, [(pB, rB)]) | Rejected reason \<Rightarrow> (Some pB, []))"
    using assms(2) race_A_first [OF assms(1)] race_B_first [OF assms(1)] by metis
  finally have "committed key (snd (run es m)) = (case oB of Fulfilled rB \<Rightarrow> [(pB, rB)] | Rejected reason \<Rightarrow> [])"
    by (simp add: keyView_def split: settled.splits)
  then show ?thesis
    using visible_race [OF assms(3)] by simp
qed

text \<open>
  The theorem at a run in which B completes first and A last, with an operation under
  another key in between, and at a run of the example module in which B's result is
  applied before A's call resumes.
\<close>

theorem last_issued_wins_witness:
  "(0::nat) \<noteq> 1
   \<and> committed ''getPreds''
       (snd (run [Call ''getPreds'' 0, Call ''other'' 7, Call ''getPreds'' 1,
                  Resume ''getPreds'' 1 (Fulfilled (JStr ''B'')),
                  Resume ''other'' 7 (Fulfilled (JStr ''C'')),
                  Resume ''getPreds'' 0 (Fulfilled (JStr ''A''))]
              \<lparr>latestLoadPromises = Map.empty, isLoading = False\<rparr>)) = [(1, JStr ''B'')]
   \<and> set (visible [Select (Some ''a''), Select (Some ''b''),
                    Settle 1 (Fulfilled resultB), Settle 0 (Fulfilled resultA), Continue 1, Continue 0]
             (exampleModule, Map.empty)) \<subseteq> {[], shownB}
   \<and> last (visible [Select (Some ''a''), Select (Some ''b''),
                     Settle 1 (Fulfilled resultB), Settle 0 (Fulfilled resultA), Continue 1, Continue 0]
              (exampleModule, Map.empty)) = shownB"
proof -
  have n: "length (getPredsCalls exampleModule) = 0" and d: "predDisplayData exampleModule = []"
    by (simp_all add: exampleModule_def)
  have f: "filter (\<lambda>e. keyOf e = ''getPreds'')
             [Call ''getPreds'' 0, Call ''other'' 7, Call ''getPreds'' 1,
              Resume ''getPreds'' 1 (Fulfilled (JStr ''B'')),
              Resume ''other'' 7 (Fulfilled (JStr ''C'')),
              Resume ''getPreds'' 0 (Fulfilled (JStr ''A''))] =
           [Call ''getPreds'' 0, Call ''getPreds'' 1,
            Resume ''getPreds'' 1 (Fulfilled (JStr ''B'')), Resume ''getPreds'' 0 (Fulfilled (JStr ''A''))]"
    by simp
  have s: "[Settle 1 (Fulfilled resultB), Settle 0 (Fulfilled resultA), Continue 1, Continue 0]
           \<in> shuffles [Settle (length (getPredsCalls exampleModule)) (Fulfilled resultA),
                        Continue (length (getPredsCalls exampleModule))]
                       [Settle (Suc (length (getPredsCalls exampleModule))) (Fulfilled resultB),
                        Continue (Suc (length (getPredsCalls exampleModule)))]"
    unfolding n shuffles_two by simp
  have "(0::nat) \<noteq> 1" by simp
  from last_issued_wins [OF this disjI2 [OF f] s, of "\<lparr>latestLoadPromises = Map.empty, isLoading = False\<rparr>" "''a''" "''b''"]
  show ?thesis
    by (simp add: shownAfter_example d)
qed

text \<open>
  The claim as stated speaks of every interleaving of the completion times. When A
  completes before B is issued, A is the latest call of its key when it completes: its
  result is returned and applied, and B's after it.
\<close>

theorem last_issued_wins_counterexample:
  "committed ''getPreds''
     (snd (run [Call ''getPreds'' 0, Resume ''getPreds'' 0 (Fulfilled (JStr ''A'')),
                Call ''getPreds'' 1, Resume ''getPreds'' 1 (Fulfilled (JStr ''B''))]
            \<lparr>latestLoadPromises = Map.empty, isLoading = False\<rparr>)) = [(0, JStr ''A''), (1, JStr ''B'')]
   \<and> visible [Select (Some ''a''), Settle 0 (Fulfilled resultA), Continue 0,
               Select (Some ''b''), Settle 1 (Fulfilled resultB), Continue 1]
        (exampleModule, Map.empty) = [[], [], [], shownA, shownA, shownA, shownB]"
  by (simp add: run_def loadLatest_call_def loadLatest_resume_def setIsLoading_def exampleModule_def
        updatePredDisplayData_call_def getPreds_def updatePredDisplayData_resume_def parseFirst_example)

lemma isLoading_stays:
  "isLoading (fst s) \<Longrightarrow> \<forall>e\<in>set es. \<forall>key p result. e \<noteq> Resume key p (Fulfilled result) \<Longrightarrow>
   isLoading (fst (fold step es s))"
proof (induction es arbitrary: s)
  case Nil
  then show ?case by simp
next
  case (Cons e es)
  have "isLoading (fst (step e s))"
    using Cons.prems
    by (cases e; cases s)
       (auto simp: loadLatest_call_def loadLatest_resume_def setIsLoading_def split: settled.splits)
  from Cons.IH [OF this] Cons.prems(2) show ?case by simp
qed

text \<open>
  C2, at the failing input: a call \<^verbatim>\<open>loadLatest(key, p)\<close> whose promise rejects while
  its handle is still the one stored under the key. The rejection propagates to the caller
  (the call is logged as rejected with the same reason), and nothing after the
  \<^verbatim>\<open>await\<close> runs: the loading flag is still true and the handle is still stored.
  By \<open>isLoading_stays\<close> the flag remains true until some later call is fulfilled as
  the latest of its key.
\<close>

theorem loadLatest_rejected:
  "run [Call key p, Resume key p (Rejected reason)] m =
     (m\<lparr>latestLoadPromises := (latestLoadPromises m)(key \<mapsto> p), isLoading := True\<rparr>,
      [(key, p, Inl (Rejection reason))])"
  by (simp add: run_def loadLatest_call_def loadLatest_resume_def setIsLoading_def)

section \<open>Properties of the module of model predictions\<close>

text \<open>
  With an input, \<^verbatim>\<open>updatePredDisplayData\<close> makes one request, passes its promise to
  \<^verbatim>\<open>loadLatest\<close> under the key \<^verbatim>\<open>getPreds\<close> and suspends; resumed with
  \<^verbatim>\<open>null\<close>, it changes nothing.
\<close>

lemma updatePredDisplayData_input:
  "updatePredDisplayData_call (Some i) m =
     (Some (length (getPredsCalls m)),
      m\<lparr>latestLoadPromises := (latestLoadPromises m)(''getPreds'' \<mapsto> length (getPredsCalls m)),
        isLoading := True,
        getPredsCalls := getPredsCalls m @ [([i], Tokens # supportedPredTypes)]\<rparr>)"
  by (simp add: updatePredDisplayData_call_def getPreds_def loadLatest_call_def setIsLoading_def)

lemma updatePredDisplayData_resume_null:
  "updatePredDisplayData_resume (Inr None) m = (Inr (), m)"
  by (simp add: updatePredDisplayData_resume_def)

text \<open>
  C5. When the primary selection becomes \<^verbatim>\<open>null\<close>, \<^verbatim>\<open>updatePredDisplayData\<close> runs
  to its end without suspending and leaves \<^verbatim>\<open>predDisplayData\<close> the empty mapping. It
  does not go through \<^verbatim>\<open>loadLatest\<close>, whose map of handles and loading flag are as
  before, and it makes no request to the prediction service.
\<close>

theorem updatePredDisplayData_null:
  "fst (updatePredDisplayData_call None m) = None
   \<and> predDisplayData (snd (updatePredDisplayData_call None m)) = []
   \<and> latestLoadPromises (snd (updatePredDisplayData_call None m)) = latestLoadPromises m
   \<and> isLoading (snd (updatePredDisplayData_call None m)) = isLoading m
   \<and> getPredsCalls (snd (updatePredDisplayData_call None m)) = getPredsCalls m"
  by (simp add: updatePredDisplayData_call_def)

end
